theory Spec2Isabelle
  imports Complex_Main "HOL-Library.AList"
begin

section \<open>NorMITs Demand: the segmented demand vector (DVector)\<close>

text \<open>
  A shallow embedding of \<^verbatim>\<open>normits_demand/core/data_structures.py\<close>: the
  \<^verbatim>\<open>TimeFormat\<close> enumeration with its conversion factor tables and the
  \<^verbatim>\<open>DVector\<close> class with its constructor and operators.

  Conventions of the embedding.
  \<^item> Python floats and numpy float64 values are idealised as \<^typ>\<open>real\<close>: rounding is
    not modelled; an equality proved here is an equality of the exact results.
  \<^item> A Python dictionary is an association list in insertion order; its keys are
    distinct whenever it has been built by the operations below.
  \<^item> Every \<^verbatim>\<open>raise\<close> and every exception of the interpreter or of numpy is the
    \<open>Inl\<close> branch of a sum; warnings are not modelled.
  \<^item> The segmentation and zoning classes (\<^verbatim>\<open>core/segments.py\<close>,
    \<^verbatim>\<open>core/zoning.py\<close>) are external: their attributes are record fields and
    the answers of their methods are parameters, collected in the record \<open>env\<close>.
\<close>

subsection \<open>Errors\<close>

datatype error =
    ValueError
  | AttributeError
  | KeyError
  | TypeError
  | ZeroDivisionError
  | ZoningError
  | SegmentationError
  | NormitsDemandError

fun emap :: "('a \<Rightarrow> error + 'b) \<Rightarrow> 'a list \<Rightarrow> error + 'b list" where
  "emap f [] = Inr []"
| "emap f (x # xs) =
     (case f x of Inl e \<Rightarrow> Inl e
      | Inr y \<Rightarrow> (case emap f xs of Inl e \<Rightarrow> Inl e | Inr ys \<Rightarrow> Inr (y # ys)))"

subsection \<open>Values held per segment\<close>

text \<open>
  A segment's value is a Python number (\<^verbatim>\<open>int\<close>, \<^verbatim>\<open>float\<close>), a numpy scalar,
  a one dimensional numpy array, or \<^verbatim>\<open>None\<close> (the placeholder that
  \<^verbatim>\<open>dict.fromkeys\<close> leaves). The distinction between a Python number and a numpy
  scalar matters: only the latter has the methods \<^verbatim>\<open>copy\<close> and \<^verbatim>\<open>flatten\<close>.
\<close>

datatype val = PyNone | PyNum real | NpScalar real | NpArr "real list"

text \<open>\<^verbatim>\<open>x * y\<close> with numpy broadcasting of one dimensional arrays.\<close>

fun val_mul :: "val \<Rightarrow> val \<Rightarrow> error + val" where
  "val_mul PyNone _ = Inl TypeError"
| "val_mul _ PyNone = Inl TypeError"
| "val_mul (PyNum a) (PyNum b) = Inr (PyNum (a * b))"
| "val_mul (PyNum a) (NpScalar b) = Inr (NpScalar (a * b))"
| "val_mul (NpScalar a) (PyNum b) = Inr (NpScalar (a * b))"
| "val_mul (NpScalar a) (NpScalar b) = Inr (NpScalar (a * b))"
| "val_mul (PyNum a) (NpArr ys) = Inr (NpArr (map (\<lambda>y. a * y) ys))"
| "val_mul (NpScalar a) (NpArr ys) = Inr (NpArr (map (\<lambda>y. a * y) ys))"
| "val_mul (NpArr xs) (PyNum b) = Inr (NpArr (map (\<lambda>x. x * b) xs))"
| "val_mul (NpArr xs) (NpScalar b) = Inr (NpArr (map (\<lambda>x. x * b) xs))"
| "val_mul (NpArr xs) (NpArr ys) =
     (if length xs = length ys then Inr (NpArr (map2 (\<lambda>x y. x * y) xs ys))
      else if length xs = 1 then Inr (NpArr (map (\<lambda>y. hd xs * y) ys))
      else if length ys = 1 then Inr (NpArr (map (\<lambda>x. x * hd ys) xs))
      else Inl ValueError)"

text \<open>\<^verbatim>\<open>x.flatten()\<close>: a method of numpy values only; the result is one dimensional.\<close>

fun flatten :: "val \<Rightarrow> error + real list" where
  "flatten (NpArr xs) = Inr xs"
| "flatten (NpScalar x) = Inr [x]"
| "flatten (PyNum x) = Inl AttributeError"
| "flatten PyNone = Inl AttributeError"

text \<open>\<^verbatim>\<open>x.copy()\<close>: again a method of numpy values only.\<close>

fun val_copy :: "val \<Rightarrow> error + val" where
  "val_copy (NpArr xs) = Inr (NpArr xs)"
| "val_copy (NpScalar x) = Inr (NpScalar x)"
| "val_copy (PyNum x) = Inl AttributeError"
| "val_copy PyNone = Inl AttributeError"

text \<open>
  \<^verbatim>\<open>np.sum(lst, axis=0)\<close> for a list of one dimensional arrays: the elementwise sum
  when all have one length, the scalar \<open>0.0\<close> for the empty list. A ragged list is
  rejected (numpy from 1.24 on raises \<^verbatim>\<open>ValueError\<close> for it).
\<close>

fun add_lists :: "real list \<Rightarrow> real list \<Rightarrow> real list" where
  "add_lists xs ys = map2 (\<lambda>x y. x + y) xs ys"

definition np_sum_axis0 :: "real list list \<Rightarrow> error + val" where
  "np_sum_axis0 lst =
     (case lst of
        [] \<Rightarrow> Inr (NpScalar 0)
      | x # xs \<Rightarrow>
          if \<forall>y \<in> set xs. length y = length x
          then Inr (NpArr (foldl add_lists x xs))
          else Inl ValueError)"

text \<open>\<^verbatim>\<open>np.sum(lst)\<close> for a list of one dimensional arrays: the sum of everything.\<close>

definition np_sum_all :: "real list list \<Rightarrow> error + real" where
  "np_sum_all lst =
     (case lst of
        [] \<Rightarrow> Inr 0
      | x # xs \<Rightarrow>
          if \<forall>y \<in> set xs. length y = length x
          then Inr (sum_list (map sum_list lst))
          else Inl ValueError)"

subsection \<open>Dictionaries\<close>

type_synonym key = string
type_synonym DVectorData = "(key \<times> val) list"

definition dict_keys :: "('k \<times> 'v) list \<Rightarrow> 'k list" where
  "dict_keys d = map fst d"

text \<open>\<^verbatim>\<open>d[k]\<close>, which raises \<^verbatim>\<open>KeyError\<close> for a missing key.\<close>

definition dict_get :: "('k \<times> 'v) list \<Rightarrow> 'k \<Rightarrow> error + 'v" where
  "dict_get d k = (case map_of d k of None \<Rightarrow> Inl KeyError | Some v \<Rightarrow> Inr v)"

text \<open>\<^verbatim>\<open>d[k] = v\<close>: a present key keeps its place, a new key goes to the end.\<close>

definition dict_set :: "('k \<times> 'v) list \<Rightarrow> 'k \<Rightarrow> 'v \<Rightarrow> ('k \<times> 'v) list" where
  "dict_set d k v = AList.update k v d"

text \<open>\<^verbatim>\<open>dict.fromkeys(ks)\<close>: every key bound to \<^verbatim>\<open>None\<close>.\<close>

definition fromkeys :: "key list \<Rightarrow> DVectorData" where
  "fromkeys ks = foldl (\<lambda>d k. dict_set d k PyNone) [] ks"

text \<open>\<^verbatim>\<open>d.update(c)\<close>.\<close>

definition dict_update :: "('k \<times> 'v) list \<Rightarrow> ('k \<times> 'v) list \<Rightarrow> ('k \<times> 'v) list" where
  "dict_update d c = foldl (\<lambda>acc (k, v). dict_set acc k v) d c"

subsection \<open>TimeFormat\<close>

datatype TimeFormat = AVG_WEEK | AVG_DAY | AVG_HOUR

fun tf_name :: "TimeFormat \<Rightarrow> string" where
  "tf_name AVG_WEEK = ''AVG_WEEK''"
| "tf_name AVG_DAY = ''AVG_DAY''"
| "tf_name AVG_HOUR = ''AVG_HOUR''"

fun tf_value :: "TimeFormat \<Rightarrow> string" where
  "tf_value AVG_WEEK = ''avg_week''"
| "tf_value AVG_DAY = ''avg_day''"
| "tf_value AVG_HOUR = ''avg_hour''"

definition TimeFormat_members :: "TimeFormat list" where
  "TimeFormat_members = [AVG_WEEK, AVG_DAY, AVG_HOUR]"

definition week_to_day_factors :: "(int \<times> real) list" where
  "week_to_day_factors = [(1, 1/5), (2, 1/5), (3, 1/5), (4, 1/5), (5, 1), (6, 1)]"

definition day_to_hour_factors :: "(int \<times> real) list" where
  "day_to_hour_factors = [(1, 1/3), (2, 1/6), (3, 1/3), (4, 1/12), (5, 1/24), (6, 1/24)]"

text \<open>Inverse of week to day factors.\<close>

definition day_to_week_factors :: "(int \<times> real) list" where
  "day_to_week_factors = map (\<lambda>(k, v). (k, 1 / v)) week_to_day_factors"

text \<open>Inverse of day to hour factors.\<close>

definition hour_to_day_factors :: "(int \<times> real) list" where
  "hour_to_day_factors = map (\<lambda>(k, v). (k, 1 / v)) day_to_hour_factors"

text \<open>
  Modelled from the spec: \<^verbatim>\<open>du.combine_dict_list\<close> (\<^verbatim>\<open>utils/general.py\<close> is
  not part of the sources at hand). The spec composes factor tables "via chained
  multiplication": every key of the first dictionary is bound to the result of folding
  the operation over the values the dictionaries give it.
\<close>

fun combine_dict_list ::
  "('k \<times> real) list list \<Rightarrow> (real \<Rightarrow> real \<Rightarrow> real) \<Rightarrow> error + ('k \<times> real) list" where
  "combine_dict_list [] operation = Inr []"
| "combine_dict_list (d # ds) operation =
     emap (\<lambda>(k, v).
        case emap (\<lambda>d'. dict_get d' k) ds of
          Inl e \<Rightarrow> Inl e
        | Inr vs \<Rightarrow> Inr (k, foldl operation v vs)) d"

text \<open>Compound week to day and day to hour factors.\<close>

definition week_to_hour_factors :: "error + (int \<times> real) list" where
  "week_to_hour_factors =
     combine_dict_list [week_to_day_factors, day_to_hour_factors] (\<lambda>a b. a * b)"

text \<open>Compound hour to day and day to week factors.\<close>

definition hour_to_week_factors :: "error + (int \<times> real) list" where
  "hour_to_week_factors =
     combine_dict_list [hour_to_day_factors, day_to_week_factors] (\<lambda>a b. a * b)"

text \<open>
  \<^verbatim>\<open>TimeFormat.get_conversion_factors\<close>. The argument is a \<^verbatim>\<open>TimeFormat\<close> by its
  type here, so the \<^verbatim>\<open>isinstance\<close> check cannot fail; the six directed pairs are
  listed in the source's order and its last branch is unreachable.
\<close>

definition get_conversion_factors ::
  "TimeFormat \<Rightarrow> TimeFormat \<Rightarrow> error + (int \<times> real) list" where
  "get_conversion_factors self to_time_format =
     (if to_time_format = self then Inl ValueError
      else if self = AVG_WEEK \<and> to_time_format = AVG_DAY then Inr week_to_day_factors
      else if self = AVG_WEEK \<and> to_time_format = AVG_HOUR then week_to_hour_factors
      else if self = AVG_DAY \<and> to_time_format = AVG_WEEK then Inr day_to_week_factors
      else if self = AVG_DAY \<and> to_time_format = AVG_HOUR then Inr day_to_hour_factors
      else if self = AVG_HOUR \<and> to_time_format = AVG_WEEK then hour_to_week_factors
      else if self = AVG_HOUR \<and> to_time_format = AVG_DAY then Inr hour_to_day_factors
      else Inl NormitsDemandError)"

subsection \<open>Strings: \<^verbatim>\<open>str.strip\<close> and \<^verbatim>\<open>str.lower\<close>\<close>

text \<open>
  A character of the model is a code point below 256, that is, Latin-1. Python's
  white space among these code points is 0x09 to 0x0D, 0x1C to 0x1F, 0x20, 0x85 and
  0xA0; its letters with a lower case form are A to Z and 0xC0 to 0xDE without 0xD7,
  each 0x20 below its lower case form.
\<close>

definition is_space :: "char \<Rightarrow> bool" where
  "is_space c \<longleftrightarrow>
     c \<in> set [CHR '' '', CHR 0x09, CHR 0x0A, CHR 0x0B, CHR 0x0C, CHR 0x0D,
               CHR 0x1C, CHR 0x1D, CHR 0x1E, CHR 0x1F, CHR 0x85, CHR 0xA0]"

definition py_strip :: "string \<Rightarrow> string" where
  "py_strip s = rev (dropWhile is_space (rev (dropWhile is_space s)))"

definition latin1_upper :: string where
  "latin1_upper =
     ''ABCDEFGHIJKLMNOPQRSTUVWXYZ'' @
       [
        CHR 0xC0, CHR 0xC1, CHR 0xC2, CHR 0xC3, CHR 0xC4, CHR 0xC5, CHR 0xC6, CHR 0xC7,
        CHR 0xC8, CHR 0xC9, CHR 0xCA, CHR 0xCB, CHR 0xCC, CHR 0xCD, CHR 0xCE, CHR 0xCF,
        CHR 0xD0, CHR 0xD1, CHR 0xD2, CHR 0xD3, CHR 0xD4, CHR 0xD5, CHR 0xD6, CHR 0xD8,
        CHR 0xD9, CHR 0xDA, CHR 0xDB, CHR 0xDC, CHR 0xDD, CHR 0xDE]"

definition latin1_lower :: string where
  "latin1_lower =
     ''abcdefghijklmnopqrstuvwxyz'' @
       [
        CHR 0xE0, CHR 0xE1, CHR 0xE2, CHR 0xE3, CHR 0xE4, CHR 0xE5, CHR 0xE6, CHR 0xE7,
        CHR 0xE8, CHR 0xE9, CHR 0xEA, CHR 0xEB, CHR 0xEC, CHR 0xED, CHR 0xEE, CHR 0xEF,
        CHR 0xF0, CHR 0xF1, CHR 0xF2, CHR 0xF3, CHR 0xF4, CHR 0xF5, CHR 0xF6, CHR 0xF8,
        CHR 0xF9, CHR 0xFA, CHR 0xFB, CHR 0xFC, CHR 0xFD, CHR 0xFE]"

definition lower_char :: "char \<Rightarrow> char" where
  "lower_char c =
     (case map_of (zip latin1_upper latin1_lower) c of
        Some l \<Rightarrow> l
      | None \<Rightarrow> c)"

definition py_lower :: "string \<Rightarrow> string" where
  "py_lower s = map lower_char s"

subsection \<open>The external classes: zoning systems and segmentation levels\<close>

text \<open>
  The attributes of \<^verbatim>\<open>core.ZoningSystem\<close> that the vector reads. Two zoning
  systems are compared with \<^verbatim>\<open>==\<close> in the source; here that is equality of the
  records.
\<close>

record ZoningSystem =
  zoning_name :: string
  n_zones :: nat
  unique_zones :: "int list"

text \<open>
  The attributes of \<^verbatim>\<open>core.SegmentationLevel\<close> that the vector reads, and the
  answers of its parameterless methods (\<^verbatim>\<open>has_time_period_segments()\<close>,
  \<^verbatim>\<open>get_time_period_groups()\<close>, \<^verbatim>\<open>get_grouped_weekday_segments()\<close>,
  \<^verbatim>\<open>get_grouped_weekend_segments()\<close>).
\<close>

record SegmentationLevel =
  segmentation_name :: string
  segment_names :: "key list"
  has_time_period_segments :: bool
  time_period_groups :: "(int \<times> key list) list"
  grouped_weekday_segments :: "key list list"
  grouped_weekend_segments :: "key list list"

text \<open>
  Modelled from the spec: \<^verbatim>\<open>SegmentationLevel.is_correct_naming\<close>
  (\<^verbatim>\<open>core/segments.py\<close> is not part of the sources at hand). The spec has the
  dictionary path "verify every key is a valid segment", rejecting a key that is not
  recognised.
\<close>

definition is_correct_naming :: "SegmentationLevel \<Rightarrow> key list \<Rightarrow> bool" where
  "is_correct_naming seg names = list_all (\<lambda>k. k \<in> set (segment_names seg)) names"

text \<open>
  A two dimensional numpy array: its shape and its rows. The shape is part of the
  value, since an array without rows still has a number of columns.
\<close>

record matrix =
  n_rows :: nat
  n_cols :: nat
  entries :: "real list list"

text \<open>
  What the surroundings answer: the number of cores, the segmentation algebra
  (\<^verbatim>\<open>seg * other\<close>, \<^verbatim>\<open>seg.aggregate\<close>, \<^verbatim>\<open>seg.split_tfntt_segmentation\<close>,
  \<^verbatim>\<open>seg.expand\<close>) and \<^verbatim>\<open>ZoningSystem.translate\<close>.
  Each of them may raise.
\<close>

record env =
  cpu_count :: int
  seg_multiply ::
    "SegmentationLevel \<Rightarrow> SegmentationLevel \<Rightarrow>
       error + ((key \<times> key \<times> key) list \<times> SegmentationLevel)"
  seg_aggregate ::
    "SegmentationLevel \<Rightarrow> SegmentationLevel \<Rightarrow> error + (key \<times> key list) list"
  seg_split_tfntt ::
    "SegmentationLevel \<Rightarrow> SegmentationLevel \<Rightarrow> error + (key \<times> key list) list"
  seg_expand ::
    "SegmentationLevel \<Rightarrow> SegmentationLevel \<Rightarrow>
       error + ((key \<times> key \<times> key) list \<times> SegmentationLevel)"
  zoning_translate ::
    "ZoningSystem \<Rightarrow> ZoningSystem \<Rightarrow> string option \<Rightarrow> error + matrix"

subsection \<open>DVector: the object and its constructor\<close>

text \<open>
  The attributes \<^verbatim>\<open>_zoning_system\<close>, \<^verbatim>\<open>_segmentation\<close>, \<^verbatim>\<open>_time_format\<close>,
  \<^verbatim>\<open>_data\<close>, \<^verbatim>\<open>_process_count\<close> and \<^verbatim>\<open>_chunk_divider\<close>. The record is
  polymorphic in what \<^verbatim>\<open>_data\<close> is: the dictionary itself, or a reference to it
  in a store where aliasing matters.
\<close>

record 'd DVector =
  zoning_system :: "ZoningSystem option"
  segmentation :: SegmentationLevel
  time_format_attr :: "TimeFormat option"
  data_attr :: 'd
  process_count :: int
  chunk_divider :: int

text \<open>The argument \<^verbatim>\<open>time_format: Union[str, TimeFormat] = None\<close>.\<close>

datatype time_format_arg = TfNone | TfEnum TimeFormat | TfStr string

text \<open>The property \<^verbatim>\<open>time_format\<close>: the member's name, or \<^verbatim>\<open>None\<close>.\<close>

definition time_format :: "'d DVector \<Rightarrow> time_format_arg" where
  "time_format self =
     (case time_format_attr self of None \<Rightarrow> TfNone | Some t \<Rightarrow> TfStr (tf_name t))"

definition valid_time_formats :: "string list" where
  "valid_time_formats = map tf_value TimeFormat_members"

definition validate_time_format ::
  "SegmentationLevel \<Rightarrow> time_format_arg \<Rightarrow> error + TimeFormat option" where
  "validate_time_format seg tf =
     (if has_time_period_segments seg \<and> tf = TfNone then Inl ValueError
      else case tf of
        TfNone \<Rightarrow> Inr None
      | TfEnum t \<Rightarrow> Inr (Some t)
      | TfStr s \<Rightarrow>
          (let s' = py_lower (py_strip s) in
           if s' \<notin> set valid_time_formats then Inl ValueError
           else case find (\<lambda>t. py_lower (tf_name t) = s') TimeFormat_members of
                  None \<Rightarrow> Inl ValueError
                | Some t \<Rightarrow> Inr (Some t)))"

definition choose_time_format :: "'d DVector \<Rightarrow> 'e DVector \<Rightarrow> time_format_arg" where
  "choose_time_format self other =
     (case time_format_attr self of
        Some t \<Rightarrow> TfEnum t
      | None \<Rightarrow> (case time_format_attr other of Some t \<Rightarrow> TfEnum t | None \<Rightarrow> TfNone))"

text \<open>
  The argument \<^verbatim>\<open>infill\<close> is a number: a Python one (the default \<^verbatim>\<open>0\<close>) or a
  numpy scalar.
\<close>

datatype infill = PyInfill real | NpInfill real

fun infill_val :: "infill \<Rightarrow> val" where
  "infill_val (PyInfill x) = PyNum x"
| "infill_val (NpInfill x) = NpScalar x"

fun infill_real :: "infill \<Rightarrow> real" where
  "infill_real (PyInfill x) = x"
| "infill_real (NpInfill x) = x"

text \<open>
  \<^verbatim>\<open>infill\<close> if there is no zoning system, else
  \<^verbatim>\<open>np.array([infill] * self.zoning_system.n_zones)\<close>.
\<close>

definition default_val :: "ZoningSystem option \<Rightarrow> infill \<Rightarrow> val" where
  "default_val zs infl =
     (case zs of
        None \<Rightarrow> infill_val infl
      | Some z \<Rightarrow> NpArr (replicate (n_zones z) (infill_real infl)))"

text \<open>
  The loop \<^verbatim>\<open>for name in not_in: import_data[name] = default_val.copy()\<close> of
  \<^verbatim>\<open>_dict_to_dvec\<close>. It writes into the dictionary it was given, so the dictionary
  is returned with the outcome; an exception leaves what was written before it.
\<close>

fun infill_missing ::
  "key list \<Rightarrow> val \<Rightarrow> DVectorData \<Rightarrow> error option \<times> DVectorData" where
  "infill_missing [] dv d = (None, d)"
| "infill_missing (name # names) dv d =
     (case val_copy dv of
        Inl e \<Rightarrow> (Some e, d)
      | Inr c \<Rightarrow> infill_missing names dv (dict_set d name c))"

text \<open>
  \<^verbatim>\<open>set(self.segmentation.segment_names) - import_data.keys()\<close>. The order in which
  Python walks the set is not specified; the model walks it in the order of
  \<open>segment_names\<close>.
\<close>

definition not_in :: "SegmentationLevel \<Rightarrow> DVectorData \<Rightarrow> key list" where
  "not_in seg import_data =
     filter (\<lambda>k. k \<notin> set (dict_keys import_data)) (remdups (segment_names seg))"

text \<open>
  \<^verbatim>\<open>DVector._dict_to_dvec\<close>, as a state transformer on the dictionary
  \<^verbatim>\<open>import_data\<close>: the first component is the exception raised, if any, and the
  second the dictionary afterwards. The value returned on success is that same
  dictionary.
\<close>

definition dict_to_dvec ::
  "ZoningSystem option \<Rightarrow> SegmentationLevel \<Rightarrow> DVectorData \<Rightarrow> infill \<Rightarrow>
     error option \<times> DVectorData" where
  "dict_to_dvec zs seg import_data infl =
     (case infill_missing (not_in seg import_data) (default_val zs infl) import_data of
        (Some e, d) \<Rightarrow> (Some e, d)
      | (None, d) \<Rightarrow>
          if \<not> is_correct_naming seg (dict_keys d) then (Some SegmentationError, d)
          else (None, d))"

text \<open>The setter of \<^verbatim>\<open>process_count\<close> and the choice of \<^verbatim>\<open>_chunk_divider\<close>.\<close>

definition set_process_count :: "env \<Rightarrow> int \<Rightarrow> int" where
  "set_process_count E a = (if a < 0 then cpu_count E + a else a)"

definition chunk_divider_of :: "int \<Rightarrow> int" where
  "chunk_divider_of pc = (if pc = 0 then 1 else pc * 3)"

text \<open>
  \<^verbatim>\<open>DVector.__init__\<close> for a dictionary \<^verbatim>\<open>import_data\<close>, with the dictionary
  passed by value: the time format is validated first, then the dictionary is
  converted.
\<close>

definition DVector_init ::
  "env \<Rightarrow> ZoningSystem option \<Rightarrow> SegmentationLevel \<Rightarrow> DVectorData \<Rightarrow>
     time_format_arg \<Rightarrow> infill \<Rightarrow> int \<Rightarrow> error + DVectorData DVector" where
  "DVector_init E zs seg import_data tf infl pc =
     (case validate_time_format seg tf of
        Inl e \<Rightarrow> Inl e
      | Inr t \<Rightarrow>
          (case dict_to_dvec zs seg import_data infl of
             (Some e, d) \<Rightarrow> Inl e
           | (None, d) \<Rightarrow>
               Inr \<lparr>zoning_system = zs, segmentation = seg, time_format_attr = t,
                    data_attr = d, process_count = set_process_count E pc,
                    chunk_divider = chunk_divider_of (set_process_count E pc)\<rparr>))"

text \<open>
  The same constructor with the dictionary passed by reference, as Python passes
  it: \<open>h\<close> is the store of dictionary objects, \<open>r\<close> the caller's dictionary. The
  new vector's \<^verbatim>\<open>_data\<close> is the reference it was given.
\<close>

type_synonym ref = nat
type_synonym heap = "ref \<Rightarrow> DVectorData"

definition DVector_init_ref ::
  "env \<Rightarrow> heap \<Rightarrow> ZoningSystem option \<Rightarrow> SegmentationLevel \<Rightarrow> ref \<Rightarrow>
     time_format_arg \<Rightarrow> infill \<Rightarrow> int \<Rightarrow> (error + ref DVector) \<times> heap" where
  "DVector_init_ref E h zs seg r tf infl pc =
     (case validate_time_format seg tf of
        Inl e \<Rightarrow> (Inl e, h)
      | Inr t \<Rightarrow>
          (case dict_to_dvec zs seg (h r) infl of
             (Some e, d) \<Rightarrow> (Inl e, h(r := d))
           | (None, d) \<Rightarrow>
               (Inr \<lparr>zoning_system = zs, segmentation = seg, time_format_attr = t,
                     data_attr = r, process_count = set_process_count E pc,
                     chunk_divider = chunk_divider_of (set_process_count E pc)\<rparr>,
                h(r := d))))"

text \<open>\<^verbatim>\<open>DVector.copy\<close>.\<close>

definition copy :: "env \<Rightarrow> DVectorData DVector \<Rightarrow> error + DVectorData DVector" where
  "copy E self =
     DVector_init E (zoning_system self) (segmentation self) (data_attr self)
       (case time_format_attr self of None \<Rightarrow> TfNone | Some t \<Rightarrow> TfEnum t)
       (PyInfill 0) (process_count self)"

subsection \<open>Multiplication\<close>

text \<open>
  The loop
  \<^verbatim>\<open>for final_seg, (self_key, other_key) in d.items():
      dvec_data[final_seg] = self._data[self_key] * other._data[other_key]\<close>
  of \<^verbatim>\<open>__mul__\<close>, which \<^verbatim>\<open>expand_segmentation\<close> repeats word for word.
\<close>

fun multiply_pairs ::
  "(key \<times> key \<times> key) list \<Rightarrow> DVectorData \<Rightarrow> DVectorData \<Rightarrow> DVectorData \<Rightarrow>
     error + DVectorData" where
  "multiply_pairs [] self_data other_data dvec_data = Inr dvec_data"
| "multiply_pairs ((final_seg, self_key, other_key) # rest) self_data other_data dvec_data =
     (case dict_get self_data self_key of
        Inl e \<Rightarrow> Inl e
      | Inr a \<Rightarrow>
          (case dict_get other_data other_key of
             Inl e \<Rightarrow> Inl e
           | Inr b \<Rightarrow>
               (case val_mul a b of
                  Inl e \<Rightarrow> Inl e
                | Inr v \<Rightarrow>
                    multiply_pairs rest self_data other_data (dict_set dvec_data final_seg v))))"

text \<open>The zoning system of a product: the first part of \<^verbatim>\<open>__mul__\<close>.\<close>

definition return_zoning_system ::
  "ZoningSystem option \<Rightarrow> ZoningSystem option \<Rightarrow> error + ZoningSystem option" where
  "return_zoning_system self_zoning other_zoning =
     (if self_zoning = other_zoning then Inr self_zoning
      else if self_zoning = None then Inr other_zoning
      else if other_zoning = None then Inr self_zoning
      else Inl ZoningError)"

text \<open>\<^verbatim>\<open>DVector.__mul__\<close>.\<close>

definition mul ::
  "env \<Rightarrow> DVectorData DVector \<Rightarrow> DVectorData DVector \<Rightarrow> error + DVectorData DVector" where
  "mul E self other =
     (case return_zoning_system (zoning_system self) (zoning_system other) of
        Inl e \<Rightarrow> Inl e
      | Inr rzs \<Rightarrow>
          (case seg_multiply E (segmentation self) (segmentation other) of
             Inl e \<Rightarrow> Inl e
           | Inr (multiply_dict, return_segmentation) \<Rightarrow>
               (case multiply_pairs multiply_dict (data_attr self) (data_attr other)
                       (fromkeys (dict_keys multiply_dict)) of
                  Inl e \<Rightarrow> Inl e
                | Inr dvec_data \<Rightarrow>
                    DVector_init E rzs return_segmentation dvec_data
                      (choose_time_format self other) (PyInfill 0) (process_count self))))"

subsection \<open>Aggregation and totals\<close>

text \<open>\<^verbatim>\<open>[self._data[x].flatten() for x in in_seg_names]\<close>.\<close>

definition flat_segments :: "DVectorData \<Rightarrow> key list \<Rightarrow> error + real list list" where
  "flat_segments d names =
     emap (\<lambda>x. case dict_get d x of Inl e \<Rightarrow> Inl e | Inr v \<Rightarrow> flatten v) names"

fun aggregate_loop ::
  "(key \<times> key list) list \<Rightarrow> DVectorData \<Rightarrow> DVectorData \<Rightarrow> error + DVectorData" where
  "aggregate_loop [] self_data dvec_data = Inr dvec_data"
| "aggregate_loop ((out_seg_name, in_seg_names) # rest) self_data dvec_data =
     (case flat_segments self_data in_seg_names of
        Inl e \<Rightarrow> Inl e
      | Inr in_lst \<Rightarrow>
          (case np_sum_axis0 in_lst of
             Inl e \<Rightarrow> Inl e
           | Inr s \<Rightarrow> aggregate_loop rest self_data (dict_set dvec_data out_seg_name s)))"

text \<open>\<^verbatim>\<open>DVector.aggregate\<close>.\<close>

definition aggregate ::
  "env \<Rightarrow> DVectorData DVector \<Rightarrow> SegmentationLevel \<Rightarrow> bool \<Rightarrow>
     error + DVectorData DVector" where
  "aggregate E self out_segmentation split_tfntt_segmentation =
     (case (if split_tfntt_segmentation
            then seg_split_tfntt E (segmentation self) out_segmentation
            else seg_aggregate E (segmentation self) out_segmentation) of
        Inl e \<Rightarrow> Inl e
      | Inr aggregation_dict \<Rightarrow>
          (case aggregate_loop aggregation_dict (data_attr self)
                  (fromkeys (dict_keys aggregation_dict)) of
             Inl e \<Rightarrow> Inl e
           | Inr dvec_data \<Rightarrow>
               DVector_init E (zoning_system self) out_segmentation dvec_data
                 (time_format self) (PyInfill 0) (process_count self)))"

text \<open>\<^verbatim>\<open>DVector.sum\<close>.\<close>

definition dvec_sum :: "DVectorData DVector \<Rightarrow> error + real" where
  "dvec_sum self =
     (case emap flatten (map snd (data_attr self)) of
        Inl e \<Rightarrow> Inl e
      | Inr lst \<Rightarrow> np_sum_all lst)"

text \<open>\<^verbatim>\<open>math.isclose\<close> on finite values.\<close>

definition isclose :: "real \<Rightarrow> real \<Rightarrow> real \<Rightarrow> real \<Rightarrow> bool" where
  "isclose a b rel_tol abs_tol \<longleftrightarrow>
     \<bar>a - b\<bar> \<le> max (rel_tol * max \<bar>a\<bar> \<bar>b\<bar>) abs_tol"

text \<open>\<^verbatim>\<open>DVector.sum_is_close\<close>; the defaults are \<open>rel_tol = 0.0001\<close>, \<open>abs_tol = 0.0\<close>.\<close>

definition sum_is_close ::
  "DVectorData DVector \<Rightarrow> DVectorData DVector \<Rightarrow> real \<Rightarrow> real \<Rightarrow> error + bool" where
  "sum_is_close self other rel_tol abs_tol =
     (case dvec_sum self of
        Inl e \<Rightarrow> Inl e
      | Inr a \<Rightarrow>
          (case dvec_sum other of
             Inl e \<Rightarrow> Inl e
           | Inr b \<Rightarrow> Inr (isclose a b rel_tol abs_tol)))"

subsection \<open>Work in chunks\<close>

text \<open>
  Modelled from the spec: \<^verbatim>\<open>du.chunk_list\<close> (\<^verbatim>\<open>utils/general.py\<close> is not part
  of the sources at hand). The spec partitions the keys "into chunks"; the sibling
  \<^verbatim>\<open>pd_utils.chunk_df\<close>, which is at hand, walks
  \<^verbatim>\<open>range(0, len(df), chunk_size)\<close> and yields \<^verbatim>\<open>df[i:i + chunk_size]\<close>. So
  does this one: a step of zero is a \<^verbatim>\<open>ValueError\<close> of \<^verbatim>\<open>range\<close>, a negative
  step gives no chunk at all.
\<close>

function chunks :: "nat \<Rightarrow> 'a list \<Rightarrow> 'a list list" where
  "chunks n xs = (if n = 0 \<or> xs = [] then [] else take n xs # chunks n (drop n xs))"
  by pat_completeness auto
termination
  by (relation "measure (\<lambda>(n, xs). length xs)") auto

declare chunks.simps [simp del]

definition chunk_list :: "'a list \<Rightarrow> int \<Rightarrow> error + 'a list list" where
  "chunk_list lst chunk_size =
     (if chunk_size = 0 then Inl ValueError
      else if chunk_size < 0 then Inr []
      else Inr (chunks (nat chunk_size) lst))"

text \<open>\<^verbatim>\<open>math.ceil(total / self._chunk_divider)\<close>.\<close>

definition ceil_div :: "nat \<Rightarrow> int \<Rightarrow> error + int" where
  "ceil_div n divider =
     (if divider = 0 then Inl ZeroDivisionError
      else Inr \<lceil>real n / real_of_int divider\<rceil>)"

text \<open>
  Modelled from the spec: \<^verbatim>\<open>multiprocessing.multiprocess\<close>
  (\<^verbatim>\<open>concurrency/multiprocessing.py\<close> is not part of the sources at hand). The
  spec runs the function over each chunk, returns the results chunk by chunk, and
  lets an exception in any worker abort the whole call.
\<close>

definition multiprocess :: "('a \<Rightarrow> error + 'b) \<Rightarrow> 'a list \<Rightarrow> error + 'b list" where
  "multiprocess fn kwargs = emap fn kwargs"

text \<open>A dictionary comprehension \<^verbatim>\<open>{k: d[k] for k in ks}\<close>.\<close>

definition subdict :: "('k \<times> 'v) list \<Rightarrow> 'k list \<Rightarrow> error + ('k \<times> 'v) list" where
  "subdict d ks =
     (case emap (\<lambda>k. case dict_get d k of Inl e \<Rightarrow> Inl e | Inr v \<Rightarrow> Inr (k, v)) ks of
        Inl e \<Rightarrow> Inl e
      | Inr kvs \<Rightarrow> Inr (dict_update [] kvs))"

text \<open>
  \<^verbatim>\<open>dvec_data = dict.fromkeys(keys); for chunk in data_chunks: dvec_data.update(chunk)\<close>.
\<close>

definition merge_chunks :: "key list \<Rightarrow> DVectorData list \<Rightarrow> DVectorData" where
  "merge_chunks keys data_chunks = foldl dict_update (fromkeys keys) data_chunks"

subsection \<open>Multiply and aggregate\<close>

text \<open>The inner loop of \<^verbatim>\<open>_multiply_and_aggregate_internal\<close>: one output segment.\<close>

definition inter_segs ::
  "(key \<times> key \<times> key) list \<Rightarrow> DVectorData \<Rightarrow> DVectorData \<Rightarrow> key list \<Rightarrow>
     error + real list list" where
  "inter_segs multiply_dict self_data other_data names =
     emap (\<lambda>segment_name.
        case dict_get multiply_dict segment_name of
          Inl e \<Rightarrow> Inl e
        | Inr (self_key, other_key) \<Rightarrow>
            (case dict_get self_data self_key of
               Inl e \<Rightarrow> Inl e
             | Inr a \<Rightarrow>
                 (case dict_get other_data other_key of
                    Inl e \<Rightarrow> Inl e
                  | Inr b \<Rightarrow>
                      (case val_mul a b of Inl e \<Rightarrow> Inl e | Inr v \<Rightarrow> flatten v)))) names"

fun multiply_and_aggregate_loop ::
  "key list \<Rightarrow> (key \<times> key list) list \<Rightarrow> (key \<times> key \<times> key) list \<Rightarrow>
     DVectorData \<Rightarrow> DVectorData \<Rightarrow> DVectorData \<Rightarrow> error + DVectorData" where
  "multiply_and_aggregate_loop [] aggregation_dict multiply_dict self_data other_data dvec_data =
     Inr dvec_data"
| "multiply_and_aggregate_loop (out_seg_name # rest) aggregation_dict multiply_dict
       self_data other_data dvec_data =
     (case dict_get aggregation_dict out_seg_name of
        Inl e \<Rightarrow> Inl e
      | Inr names \<Rightarrow>
          (case inter_segs multiply_dict self_data other_data names of
             Inl e \<Rightarrow> Inl e
           | Inr segs \<Rightarrow>
               (case np_sum_axis0 segs of
                  Inl e \<Rightarrow> Inl e
                | Inr s \<Rightarrow>
                    multiply_and_aggregate_loop rest aggregation_dict multiply_dict
                      self_data other_data (dict_set dvec_data out_seg_name s))))"

text \<open>The keyword arguments handed to one worker.\<close>

record mult_agg_kwargs =
  aggregation_keys_chunk :: "key list"
  kw_aggregation_dict :: "(key \<times> key list) list"
  kw_multiply_dict :: "(key \<times> key \<times> key) list"
  kw_self_data :: DVectorData
  kw_other_data :: DVectorData

text \<open>\<^verbatim>\<open>DVector._multiply_and_aggregate_internal\<close>.\<close>

definition multiply_and_aggregate_internal :: "mult_agg_kwargs \<Rightarrow> error + DVectorData" where
  "multiply_and_aggregate_internal kw =
     multiply_and_aggregate_loop (aggregation_keys_chunk kw) (kw_aggregation_dict kw)
       (kw_multiply_dict kw) (kw_self_data kw) (kw_other_data kw)
       (fromkeys (aggregation_keys_chunk kw))"

text \<open>
  The body of the loop over the chunks in \<^verbatim>\<open>multiply_and_aggregate\<close>: the slices
  of the dictionaries one chunk needs. Unpacking \<^verbatim>\<open>zip(*mult_dict_subset.values())\<close>
  into two names raises \<^verbatim>\<open>ValueError\<close> when the subset is empty.
\<close>

definition mult_agg_chunk_kwargs ::
  "(key \<times> key list) list \<Rightarrow> (key \<times> key \<times> key) list \<Rightarrow> DVectorData \<Rightarrow> DVectorData \<Rightarrow>
     key list \<Rightarrow> error + mult_agg_kwargs" where
  "mult_agg_chunk_kwargs aggregation_dict multiply_dict self_data other_data keys_chunk =
     (case subdict aggregation_dict keys_chunk of
        Inl e \<Rightarrow> Inl e
      | Inr agg_dict_subset \<Rightarrow>
          (case subdict multiply_dict (concat (map snd agg_dict_subset)) of
             Inl e \<Rightarrow> Inl e
           | Inr mult_dict_subset \<Rightarrow>
               if mult_dict_subset = [] then Inl ValueError
               else
                 (case subdict self_data (map (\<lambda>(k, sk, ok). sk) mult_dict_subset) of
                    Inl e \<Rightarrow> Inl e
                  | Inr sd \<Rightarrow>
                      (case subdict other_data (map (\<lambda>(k, sk, ok). ok) mult_dict_subset) of
                         Inl e \<Rightarrow> Inl e
                       | Inr od \<Rightarrow>
                           Inr \<lparr>aggregation_keys_chunk = keys_chunk,
                                kw_aggregation_dict = agg_dict_subset,
                                kw_multiply_dict = mult_dict_subset,
                                kw_self_data = sd, kw_other_data = od\<rparr>))))"

text \<open>\<^verbatim>\<open>DVector.multiply_and_aggregate\<close>.\<close>

definition multiply_and_aggregate ::
  "env \<Rightarrow> DVectorData DVector \<Rightarrow> DVectorData DVector \<Rightarrow> SegmentationLevel \<Rightarrow>
     error + DVectorData DVector" where
  "multiply_and_aggregate E self other out_segmentation =
     (case seg_multiply E (segmentation self) (segmentation other) of
        Inl e \<Rightarrow> Inl e
      | Inr (multiply_dict, mult_return_seg) \<Rightarrow>
          (case seg_aggregate E mult_return_seg out_segmentation of
             Inl e \<Rightarrow> Inl e
           | Inr aggregation_dict \<Rightarrow>
               (case ceil_div (length aggregation_dict) (chunk_divider self) of
                  Inl e \<Rightarrow> Inl e
                | Inr chunk_size \<Rightarrow>
                    (case chunk_list (dict_keys aggregation_dict) chunk_size of
                       Inl e \<Rightarrow> Inl e
                     | Inr key_chunks \<Rightarrow>
                         (case emap (mult_agg_chunk_kwargs aggregation_dict multiply_dict
                                       (data_attr self) (data_attr other)) key_chunks of
                            Inl e \<Rightarrow> Inl e
                          | Inr kwarg_list \<Rightarrow>
                              (case multiprocess multiply_and_aggregate_internal kwarg_list of
                                 Inl e \<Rightarrow> Inl e
                               | Inr data_chunks \<Rightarrow>
                                   DVector_init E (zoning_system self) out_segmentation
                                     (merge_chunks (dict_keys aggregation_dict) data_chunks)
                                     (choose_time_format self other) (PyInfill 0)
                                     (process_count self)))))))"

subsection \<open>Zone translation\<close>

text \<open>\<^verbatim>\<open>temp.sum(axis=0)\<close> for a two dimensional array with \<open>m\<close> columns.\<close>

definition sum_axis0 :: "nat \<Rightarrow> real list list \<Rightarrow> real list" where
  "sum_axis0 m rows = map (\<lambda>j. sum_list (map (\<lambda>row. row ! j) rows)) [0..<m]"

text \<open>
  The body of the loop of \<^verbatim>\<open>_translate_zoning_internal\<close>:
  \<^verbatim>\<open>np.broadcast_to(np.expand_dims(value, axis=1), translation.shape)\<close> asks the
  flattened value to have as many entries as the matrix has rows, or one entry only,
  which is then repeated down the rows.
\<close>

definition translate_value :: "matrix \<Rightarrow> val \<Rightarrow> error + val" where
  "translate_value translation v =
     (case flatten v of
        Inl e \<Rightarrow> Inl e
      | Inr xs \<Rightarrow>
          if length xs = n_rows translation
          then Inr (NpArr (sum_axis0 (n_cols translation)
                     (map2 (\<lambda>x row. map (\<lambda>t. x * t) row) xs (entries translation))))
          else if length xs = 1
          then Inr (NpArr (sum_axis0 (n_cols translation)
                     (map (\<lambda>row. map (\<lambda>t. hd xs * t) row) (entries translation))))
          else Inl ValueError)"

fun translate_loop :: "DVectorData \<Rightarrow> matrix \<Rightarrow> DVectorData \<Rightarrow> error + DVectorData" where
  "translate_loop [] translation dvec_data = Inr dvec_data"
| "translate_loop ((k, v) # rest) translation dvec_data =
     (case translate_value translation v of
        Inl e \<Rightarrow> Inl e
      | Inr t \<Rightarrow> translate_loop rest translation (dict_set dvec_data k t))"

text \<open>\<^verbatim>\<open>DVector._translate_zoning_internal\<close>.\<close>

definition translate_zoning_internal :: "DVectorData \<times> matrix \<Rightarrow> error + DVectorData" where
  "translate_zoning_internal kw =
     (case kw of (self_data, translation) \<Rightarrow>
        translate_loop self_data translation (fromkeys (dict_keys self_data)))"

definition translate_zoning_min_chunk_size :: int where
  "translate_zoning_min_chunk_size = 700"

text \<open>
  \<^verbatim>\<open>DVector.translate_zoning\<close>. Reading \<^verbatim>\<open>self.zoning_system.name\<close> of a vector
  without a zoning system is an \<^verbatim>\<open>AttributeError\<close>; the name of a zoning system
  is a string here, so the test \<^verbatim>\<open>name is None\<close> does not fire.
\<close>

definition translate_zoning ::
  "env \<Rightarrow> DVectorData DVector \<Rightarrow> ZoningSystem \<Rightarrow> string option \<Rightarrow>
     error + DVectorData DVector" where
  "translate_zoning E self new_zoning weighting =
     (case zoning_system self of
        None \<Rightarrow> Inl AttributeError
      | Some z \<Rightarrow>
          (case zoning_translate E z new_zoning weighting of
             Inl e \<Rightarrow> Inl e
           | Inr translation \<Rightarrow>
               (case ceil_div (length (data_attr self)) (chunk_divider self) of
                  Inl e \<Rightarrow> Inl e
                | Inr cs \<Rightarrow>
                    (let chunk_size = (if cs < translate_zoning_min_chunk_size
                                       then translate_zoning_min_chunk_size else cs) in
                     case chunk_list (dict_keys (data_attr self)) chunk_size of
                       Inl e \<Rightarrow> Inl e
                     | Inr key_chunks \<Rightarrow>
                         (case emap (\<lambda>keys_chunk.
                                  case subdict (data_attr self) keys_chunk of
                                    Inl e \<Rightarrow> Inl e
                                  | Inr self_data_subset \<Rightarrow>
                                      Inr (self_data_subset, translation)) key_chunks of
                            Inl e \<Rightarrow> Inl e
                          | Inr kwarg_list \<Rightarrow>
                              (case multiprocess translate_zoning_internal kwarg_list of
                                 Inl e \<Rightarrow> Inl e
                               | Inr data_chunks \<Rightarrow>
                                   DVector_init E (Some new_zoning) (segmentation self)
                                     (merge_chunks (dict_keys (data_attr self)) data_chunks)
                                     (time_format self) (PyInfill 0)
                                     (process_count self)))))))"

subsection \<open>Expanding the segmentation\<close>

text \<open>
  The part of \<^verbatim>\<open>expand_segmentation\<close> before its check of the totals: the zoning
  test, the expansion, and the construction of the expanded vector, which is given no
  \<^verbatim>\<open>time_format\<close> argument.
\<close>

definition expanded_dvec ::
  "env \<Rightarrow> DVectorData DVector \<Rightarrow> DVectorData DVector \<Rightarrow> error + DVectorData DVector" where
  "expanded_dvec E self expansion_dvec =
     (if zoning_system self \<noteq> None
         \<and> zoning_system expansion_dvec \<notin> set [zoning_system self, None]
      then Inl ValueError
      else
        (case seg_expand E (segmentation self) (segmentation expansion_dvec) of
           Inl e \<Rightarrow> Inl e
         | Inr (expand_dict, return_seg) \<Rightarrow>
             (case multiply_pairs expand_dict (data_attr self) (data_attr expansion_dvec)
                     (fromkeys (dict_keys expand_dict)) of
                Inl e \<Rightarrow> Inl e
              | Inr dvec_data \<Rightarrow>
                  DVector_init E (zoning_system self) return_seg dvec_data TfNone
                    (PyInfill 0) (process_count self))))"

text \<open>\<^verbatim>\<open>DVector.expand_segmentation\<close>.\<close>

definition expand_segmentation ::
  "env \<Rightarrow> DVectorData DVector \<Rightarrow> DVectorData DVector \<Rightarrow> error + DVectorData DVector" where
  "expand_segmentation E self expansion_dvec =
     (case expanded_dvec E self expansion_dvec of
        Inl e \<Rightarrow> Inl e
      | Inr expanded \<Rightarrow>
          (case sum_is_close self expanded (1 / 10000) 0 of
             Inl e \<Rightarrow> Inl e
           | Inr close \<Rightarrow> if \<not> close then Inl ValueError else Inr expanded))"

subsection \<open>Balancing at segments\<close>

definition zero_infill :: real where
  "zero_infill = 1 / 10 ^ 10"

text \<open>
  \<^verbatim>\<open>np.where(data <= 0, infill, data)\<close>: entry by entry; of a number it makes a
  numpy value without dimensions. Comparing \<^verbatim>\<open>None\<close> with \<open>0\<close> is a
  \<^verbatim>\<open>TypeError\<close>.
\<close>

fun infill_zeros :: "real \<Rightarrow> val \<Rightarrow> error + val" where
  "infill_zeros c (NpArr xs) = Inr (NpArr (map (\<lambda>x. if x \<le> 0 then c else x) xs))"
| "infill_zeros c (NpScalar x) = Inr (NpScalar (if x \<le> 0 then c else x))"
| "infill_zeros c (PyNum x) = Inr (NpScalar (if x \<le> 0 then c else x))"
| "infill_zeros c PyNone = Inl TypeError"

text \<open>\<^verbatim>\<open>np.sum(x)\<close> of one numeric value.\<close>

fun np_sum :: "val \<Rightarrow> error + real" where
  "np_sum (NpArr xs) = Inr (sum_list xs)"
| "np_sum (NpScalar x) = Inr x"
| "np_sum (PyNum x) = Inr x"
| "np_sum PyNone = Inl TypeError"

text \<open>
  \<^verbatim>\<open>self_data * (np.sum(other_data) / np.sum(self_data))\<close>. Division of numpy
  floats does not raise; the quotient is a real here, and the divisor can be zero
  only for an array without entries, whose product with anything is that array.
\<close>

definition balance_value :: "val \<Rightarrow> val \<Rightarrow> error + val" where
  "balance_value self_data other_data =
     (case np_sum other_data of
        Inl e \<Rightarrow> Inl e
      | Inr so \<Rightarrow>
          (case np_sum self_data of
             Inl e \<Rightarrow> Inl e
           | Inr ss \<Rightarrow> val_mul self_data (NpScalar (so / ss))))"

text \<open>The loop over the segments when the week is not split.\<close>

fun balance_loop ::
  "key list \<Rightarrow> DVectorData \<Rightarrow> DVectorData \<Rightarrow> DVectorData \<Rightarrow> error + DVectorData" where
  "balance_loop [] self_d other_d dvec_data = Inr dvec_data"
| "balance_loop (segment # rest) self_d other_d dvec_data =
     (case dict_get self_d segment of
        Inl e \<Rightarrow> Inl e
      | Inr sv \<Rightarrow>
          (case dict_get other_d segment of
             Inl e \<Rightarrow> Inl e
           | Inr ov \<Rightarrow>
               (case infill_zeros zero_infill sv of
                  Inl e \<Rightarrow> Inl e
                | Inr self_data \<Rightarrow>
                    (case infill_zeros zero_infill ov of
                       Inl e \<Rightarrow> Inl e
                     | Inr other_data \<Rightarrow>
                         (case balance_value self_data other_data of
                            Inl e \<Rightarrow> Inl e
                          | Inr b \<Rightarrow>
                              balance_loop rest self_d other_d
                                (dict_set dvec_data segment b))))))"

text \<open>
  The loops when weekdays and weekends are balanced as groups: the infilled data of
  one group, its one factor, and the assignment to each segment of the group.
\<close>

definition np_sum_vals :: "val list \<Rightarrow> error + real" where
  "np_sum_vals vs =
     (case emap flatten vs of Inl e \<Rightarrow> Inl e | Inr lst \<Rightarrow> np_sum_all lst)"

fun scale_group :: "(key \<times> val) list \<Rightarrow> real \<Rightarrow> DVectorData \<Rightarrow> error + DVectorData" where
  "scale_group [] factor dvec_data = Inr dvec_data"
| "scale_group ((segment, self_data) # rest) factor dvec_data =
     (case val_mul self_data (NpScalar factor) of
        Inl e \<Rightarrow> Inl e
      | Inr b \<Rightarrow> scale_group rest factor (dict_set dvec_data segment b))"

fun balance_groups ::
  "key list list \<Rightarrow> DVectorData \<Rightarrow> DVectorData \<Rightarrow> DVectorData \<Rightarrow> error + DVectorData" where
  "balance_groups [] self_d other_d dvec_data = Inr dvec_data"
| "balance_groups (segment_group # rest) self_d other_d dvec_data =
     (case emap (\<lambda>segment.
               case dict_get self_d segment of
                 Inl e \<Rightarrow> Inl e
               | Inr sv \<Rightarrow>
                   (case dict_get other_d segment of
                      Inl e \<Rightarrow> Inl e
                    | Inr ov \<Rightarrow>
                        (case infill_zeros zero_infill sv of
                           Inl e \<Rightarrow> Inl e
                         | Inr self_data \<Rightarrow>
                             (case infill_zeros zero_infill ov of
                                Inl e \<Rightarrow> Inl e
                              | Inr other_data \<Rightarrow>
                                  Inr (self_data, other_data))))) segment_group of
        Inl e \<Rightarrow> Inl e
      | Inr pairs \<Rightarrow>
          (case np_sum_vals (map snd pairs) of
             Inl e \<Rightarrow> Inl e
           | Inr so \<Rightarrow>
               (case np_sum_vals (map fst pairs) of
                  Inl e \<Rightarrow> Inl e
                | Inr ss \<Rightarrow>
                    (case scale_group (zip segment_group (map fst pairs)) (so / ss)
                            dvec_data of
                       Inl e \<Rightarrow> Inl e
                     | Inr d \<Rightarrow> balance_groups rest self_d other_d d))))"

text \<open>\<^verbatim>\<open>DVector.balance_at_segments\<close>.\<close>

definition balance_at_segments ::
  "env \<Rightarrow> DVectorData DVector \<Rightarrow> DVectorData DVector \<Rightarrow> bool \<Rightarrow>
     error + DVectorData DVector" where
  "balance_at_segments E self other split_weekday_weekend =
     (if segmentation_name (segmentation self) \<noteq> segmentation_name (segmentation other)
      then Inl ValueError
      else
        (case (if split_weekday_weekend
               then balance_groups
                      (grouped_weekday_segments (segmentation self)
                         @ grouped_weekend_segments (segmentation self))
                      (data_attr self) (data_attr other)
                      (fromkeys (segment_names (segmentation self)))
               else balance_loop (segment_names (segmentation self))
                      (data_attr self) (data_attr other)
                      (fromkeys (segment_names (segmentation self)))) of
           Inl e \<Rightarrow> Inl e
         | Inr dvec_data \<Rightarrow>
             DVector_init E (zoning_system self) (segmentation other) dvec_data
               (time_format self) (PyInfill 0) (process_count self)))"

subsection \<open>Converting the time format\<close>

text \<open>
  The loops \<^verbatim>\<open>for tp, segments in tp_groups.items(): for seg in segments:
  dvec_data[seg] = self._data[seg] * conversion_factors[tp]\<close>.
\<close>

fun convert_segments ::
  "key list \<Rightarrow> real \<Rightarrow> DVectorData \<Rightarrow> DVectorData \<Rightarrow> error + DVectorData" where
  "convert_segments [] factor self_data dvec_data = Inr dvec_data"
| "convert_segments (seg # rest) factor self_data dvec_data =
     (case dict_get self_data seg of
        Inl e \<Rightarrow> Inl e
      | Inr v \<Rightarrow>
          (case val_mul v (PyNum factor) of
             Inl e \<Rightarrow> Inl e
           | Inr c \<Rightarrow> convert_segments rest factor self_data (dict_set dvec_data seg c)))"

fun convert_groups ::
  "(int \<times> key list) list \<Rightarrow> (int \<times> real) list \<Rightarrow> DVectorData \<Rightarrow> DVectorData \<Rightarrow>
     error + DVectorData" where
  "convert_groups [] conversion_factors self_data dvec_data = Inr dvec_data"
| "convert_groups ((tp, segments) # rest) conversion_factors self_data dvec_data =
     (if segments = [] then convert_groups rest conversion_factors self_data dvec_data
      else
        (case dict_get conversion_factors tp of
           Inl e \<Rightarrow> Inl e
         | Inr factor \<Rightarrow>
             (case convert_segments segments factor self_data dvec_data of
                Inl e \<Rightarrow> Inl e
              | Inr d \<Rightarrow> convert_groups rest conversion_factors self_data d)))"

text \<open>\<^verbatim>\<open>DVector.convert_time_format\<close>.\<close>

definition convert_time_format ::
  "env \<Rightarrow> DVectorData DVector \<Rightarrow> time_format_arg \<Rightarrow> error + DVectorData DVector" where
  "convert_time_format E self new_time_format_arg =
     (case validate_time_format (segmentation self) new_time_format_arg of
        Inl e \<Rightarrow> Inl e
      | Inr new_time_format \<Rightarrow>
          (case time_format_attr self of
             None \<Rightarrow> Inl ValueError
           | Some self_tf \<Rightarrow>
               (case new_time_format of
                  None \<Rightarrow> Inl ValueError
                | Some new_tf \<Rightarrow>
                    if \<not> has_time_period_segments (segmentation self) then Inl ValueError
                    else if self_tf = new_tf then copy E self
                    else
                      (case get_conversion_factors self_tf new_tf of
                         Inl e \<Rightarrow> Inl e
                       | Inr conversion_factors \<Rightarrow>
                           (let tp_groups = time_period_groups (segmentation self) in
                            if \<exists>tp \<in> set (dict_keys tp_groups).
                                 tp \<notin> set (dict_keys conversion_factors)
                            then Inl SegmentationError
                            else
                              (case convert_groups tp_groups conversion_factors
                                      (data_attr self)
                                      (fromkeys (dict_keys (data_attr self))) of
                                 Inl e \<Rightarrow> Inl e
                               | Inr dvec_data \<Rightarrow>
                                   DVector_init E (zoning_system self) (segmentation self)
                                     dvec_data (TfEnum new_tf) (PyInfill 0)
                                     (process_count self)))))))"

subsection \<open>A small world to run the operators in\<close>

text \<open>
  The example of the specification: a zoning system with the three zones 1, 2, 3; a
  segmentation with the two segments A and B; the vector with \<open>A = [10, 20, 0]\<close>
  and \<open>B = [5, 0, 0]\<close>. Beside them a second zoning system with two zones, a
  segmentation with the single segment C into which A and B aggregate, a
  segmentation with a time period segment, and a vector of rates without zones.
\<close>

definition zoning_Z :: ZoningSystem where
  "zoning_Z = \<lparr>zoning_name = ''Z'', n_zones = 3, unique_zones = [1, 2, 3]\<rparr>"

definition zoning_W :: ZoningSystem where
  "zoning_W = \<lparr>zoning_name = ''W'', n_zones = 2, unique_zones = [1, 2]\<rparr>"

definition zoning_Y :: ZoningSystem where
  "zoning_Y = \<lparr>zoning_name = ''Y'', n_zones = 3, unique_zones = [7, 8, 9]\<rparr>"

definition seg_AB :: SegmentationLevel where
  "seg_AB = \<lparr>segmentation_name = ''ab'', segment_names = [''A'', ''B''],
              has_time_period_segments = False, time_period_groups = [],
              grouped_weekday_segments = [], grouped_weekend_segments = []\<rparr>"

definition seg_C :: SegmentationLevel where
  "seg_C = \<lparr>segmentation_name = ''c'', segment_names = [''C''],
             has_time_period_segments = False, time_period_groups = [],
             grouped_weekday_segments = [], grouped_weekend_segments = []\<rparr>"

definition seg_TP :: SegmentationLevel where
  "seg_TP = \<lparr>segmentation_name = ''tp'', segment_names = [''1'', ''5''],
              has_time_period_segments = True,
              time_period_groups = [(1, [''1'']), (5, [''5''])],
              grouped_weekday_segments = [[''1'']], grouped_weekend_segments = [[''5'']]\<rparr>"

definition translation_ZW :: matrix where
  "translation_ZW = \<lparr>n_rows = 3, n_cols = 2, entries = [[1, 0], [1/2, 1/2], [0, 1]]\<rparr>"

definition world :: env where
  "world =
     \<lparr>cpu_count = 4,
      seg_multiply = (\<lambda>s t.
        if s = seg_AB \<and> t = seg_AB
        then Inr ([(''A'', ''A'', ''A''), (''B'', ''B'', ''B'')], seg_AB)
        else Inl SegmentationError),
      seg_aggregate = (\<lambda>s t.
        if s = seg_AB \<and> t = seg_C then Inr [(''C'', [''A'', ''B''])]
        else Inl SegmentationError),
      seg_split_tfntt = (\<lambda>s t. Inl SegmentationError),
      seg_expand = (\<lambda>s t.
        if s = seg_C \<and> t = seg_AB
        then Inr ([(''A'', ''C'', ''A''), (''B'', ''C'', ''B'')], seg_AB)
        else if s = seg_C \<and> t = seg_TP
        then Inr ([(''1'', ''C'', ''1''), (''5'', ''C'', ''5'')], seg_TP)
        else Inl SegmentationError),
      zoning_translate = (\<lambda>z w weighting.
        if z = zoning_Z \<and> w = zoning_W then Inr translation_ZW
        else Inl ValueError)\<rparr>"

definition mk_dvec ::
  "ZoningSystem option \<Rightarrow> SegmentationLevel \<Rightarrow> TimeFormat option \<Rightarrow> DVectorData \<Rightarrow>
     DVectorData DVector" where
  "mk_dvec zs seg tf d =
     \<lparr>zoning_system = zs, segmentation = seg, time_format_attr = tf, data_attr = d,
      process_count = 0, chunk_divider = 1\<rparr>"

definition vec_V :: "DVectorData DVector" where
  "vec_V = mk_dvec (Some zoning_Z) seg_AB None
             [(''A'', NpArr [10, 20, 0]), (''B'', NpArr [5, 0, 0])]"

definition vec_rate :: "DVectorData DVector" where
  "vec_rate = mk_dvec None seg_AB None [(''A'', PyNum (1/2)), (''B'', PyNum 2)]"

definition vec_Y :: "DVectorData DVector" where
  "vec_Y = mk_dvec (Some zoning_Y) seg_AB None
             [(''A'', NpArr [1, 1, 1]), (''B'', NpArr [2, 2, 2])]"

definition vec_V_times_rate :: "DVectorData DVector" where
  "vec_V_times_rate = mk_dvec (Some zoning_Z) seg_AB None
             [(''A'', NpArr [5, 10, 0]), (''B'', NpArr [10, 0, 0])]"

definition vec_C :: "DVectorData DVector" where
  "vec_C = mk_dvec (Some zoning_Z) seg_C None [(''C'', NpArr [15, 20, 0])]"

definition vec_weights :: "DVectorData DVector" where
  "vec_weights = mk_dvec None seg_AB None [(''A'', PyNum (1/4)), (''B'', PyNum (3/4))]"

definition vec_C_expanded :: "DVectorData DVector" where
  "vec_C_expanded = mk_dvec (Some zoning_Z) seg_AB None
             [(''A'', NpArr [15/4, 5, 0]), (''B'', NpArr [45/4, 15, 0])]"

definition vec_C_times_rate :: "DVectorData DVector" where
  "vec_C_times_rate = mk_dvec (Some zoning_Z) seg_AB None
             [(''A'', NpArr [15/2, 10, 0]), (''B'', NpArr [30, 40, 0])]"

definition vec_TP :: "DVectorData DVector" where
  "vec_TP = mk_dvec None seg_TP (Some AVG_DAY) [(''1'', PyNum (1/2)), (''5'', PyNum (1/2))]"

definition vec_week :: "DVectorData DVector" where
  "vec_week = mk_dvec (Some zoning_Z) seg_TP (Some AVG_WEEK)
                [(''1'', NpArr [10, 20, 0]), (''5'', NpArr [5, 0, 0])]"

definition vec_day :: "DVectorData DVector" where
  "vec_day = mk_dvec (Some zoning_Z) seg_TP (Some AVG_DAY)
               [(''1'', NpArr [2, 4, 0]), (''5'', NpArr [5, 0, 0])]"

definition heap_0 :: heap where
  "heap_0 = (\<lambda>r. if r = 0 then [(''A'', NpArr [10, 20, 0])]
                 else if r = 1 then [(''A'', PyNum 1)]
                 else [])"

definition bal_self :: "DVectorData DVector" where
  "bal_self = mk_dvec (Some zoning_W) seg_AB None
                [(''A'', NpArr [1, 1]), (''B'', NpArr [2, 2])]"

definition bal_other :: "DVectorData DVector" where
  "bal_other = mk_dvec (Some zoning_W) seg_AB None
                 [(''A'', NpArr [- 5, 10]), (''B'', NpArr [3, 3])]"

definition bal_result :: "DVectorData DVector" where
  "bal_result = mk_dvec (Some zoning_W) seg_AB None
                  [(''A'', NpArr [(10 + 1 / 10 ^ 10) / 2, (10 + 1 / 10 ^ 10) / 2]),
                   (''B'', NpArr [3, 3])]"

definition bal_other_C :: "DVectorData DVector" where
  "bal_other_C = mk_dvec (Some zoning_W) seg_C None [(''C'', NpArr [1, 1])]"

definition vec_V_on_W :: "DVectorData DVector" where
  "vec_V_on_W = mk_dvec (Some zoning_W) seg_AB None
                  [(''A'', NpArr [20, 10]), (''B'', NpArr [5, 0])]"

definition vec_rate_V_agg :: "DVectorData DVector" where
  "vec_rate_V_agg = mk_dvec (Some zoning_Z) seg_C None [(''C'', NpArr [15, 10, 0])]"

definition vec_rate_V_fused :: "DVectorData DVector" where
  "vec_rate_V_fused = mk_dvec None seg_C None [(''C'', NpArr [15, 10, 0])]"

definition vec_V_Y_fused :: "DVectorData DVector" where
  "vec_V_Y_fused = mk_dvec (Some zoning_Z) seg_C None [(''C'', NpArr [20, 20, 0])]"

subsection \<open>Notions used to state the properties\<close>

text \<open>
  The invariant of the specification for a vector: the keys of the data are exactly
  the segment names, each once; no value is the placeholder \<^verbatim>\<open>None\<close>; and a
  segmentation with time periods comes with a time format.
\<close>

definition valid_dvec :: "DVectorData DVector \<Rightarrow> bool" where
  "valid_dvec v \<longleftrightarrow>
     distinct (dict_keys (data_attr v))
     \<and> set (dict_keys (data_attr v)) = set (segment_names (segmentation v))
     \<and> PyNone \<notin> snd ` set (data_attr v)
     \<and> (has_time_period_segments (segmentation v) \<longrightarrow> time_format_attr v \<noteq> None)"

text \<open>
  The time period under which the loops of \<^verbatim>\<open>convert_time_format\<close> write a
  segment last, if they write it at all.
\<close>

fun last_tp :: "(int \<times> key list) list \<Rightarrow> key \<Rightarrow> int option" where
  "last_tp [] k = None"
| "last_tp ((tp, segments) # rest) k =
     (case last_tp rest k of
        Some t \<Rightarrow> Some t
      | None \<Rightarrow> if k \<in> set segments then Some tp else None)"

text \<open>One conversion factor: \<^verbatim>\<open>a.get_conversion_factors(b)[tp]\<close>.\<close>

definition conversion_factor :: "TimeFormat \<Rightarrow> TimeFormat \<Rightarrow> int \<Rightarrow> error + real" where
  "conversion_factor a b tp =
     (case get_conversion_factors a b of Inl e \<Rightarrow> Inl e | Inr cf \<Rightarrow> dict_get cf tp)"

text \<open>\<^verbatim>\<open>TimeFormat.get_time_periods\<close>.\<close>

definition get_time_periods :: "int list" where
  "get_time_periods = [1, 2, 3, 4, 5, 6]"

text \<open>What multiplying a value other than \<^verbatim>\<open>None\<close> by a Python float gives.\<close>

fun scale :: "real \<Rightarrow> val \<Rightarrow> val" where
  "scale f (PyNum a) = PyNum (a * f)"
| "scale f (NpScalar a) = NpScalar (a * f)"
| "scale f (NpArr xs) = NpArr (map (\<lambda>x. x * f) xs)"
| "scale f PyNone = PyNone"

text \<open>The numbers a value holds.\<close>

fun val_entries :: "val \<Rightarrow> real list" where
  "val_entries (NpArr xs) = xs"
| "val_entries (NpScalar x) = [x]"
| "val_entries (PyNum x) = [x]"
| "val_entries PyNone = []"

text \<open>
  For every segment of \<open>other\<close>, the sum over the zones in \<open>r\<close> is close to the
  sum over the zones in \<open>other\<close>.
\<close>

definition segment_sums_close ::
  "DVectorData DVector \<Rightarrow> DVectorData DVector \<Rightarrow> real \<Rightarrow> real \<Rightarrow> bool" where
  "segment_sums_close r other rel_tol abs_tol \<longleftrightarrow>
     list_all (\<lambda>seg.
        case dict_get (data_attr r) seg of
          Inl e \<Rightarrow> False
        | Inr x \<Rightarrow>
            (case dict_get (data_attr other) seg of
               Inl e \<Rightarrow> False
             | Inr y \<Rightarrow>
                 (case np_sum x of
                    Inl e \<Rightarrow> False
                  | Inr a \<Rightarrow>
                      (case np_sum y of
                         Inl e \<Rightarrow> False
                       | Inr b \<Rightarrow> isclose a b rel_tol abs_tol))))
       (segment_names (segmentation other))"

section \<open>Properties\<close>

subsection \<open>Unfolding sets for running the operators\<close>

lemmas world_defs = world_def zoning_Z_def zoning_W_def zoning_Y_def seg_AB_def seg_C_def
  seg_TP_def translation_ZW_def mk_dvec_def vec_V_def vec_rate_def vec_Y_def
  vec_V_times_rate_def vec_C_def vec_weights_def vec_C_expanded_def vec_C_times_rate_def
  vec_TP_def vec_week_def vec_day_def heap_0_def bal_self_def bal_other_def
  bal_result_def bal_other_C_def vec_V_on_W_def vec_rate_V_agg_def vec_rate_V_fused_def
  vec_V_Y_fused_def

lemmas init_defs = DVector_init_def validate_time_format_def dict_to_dvec_def not_in_def
  default_val_def is_correct_naming_def dict_keys_def dict_set_def dict_get_def fromkeys_def
  set_process_count_def chunk_divider_of_def choose_time_format_def time_format_def
  py_lower_def py_strip_def lower_char_def latin1_upper_def latin1_lower_def is_space_def
  valid_time_formats_def
  TimeFormat_members_def

lemmas sum_defs = dvec_sum_def np_sum_all_def sum_is_close_def isclose_def

subsection \<open>Dictionaries as association lists\<close>

lemma map_of_dict_set: "map_of (dict_set d k v) = (map_of d)(k \<mapsto> v)"
  by (simp add: dict_set_def update_conv')

lemma keys_dict_set:
  "dict_keys (dict_set d k v) = (if k \<in> set (dict_keys d) then dict_keys d else dict_keys d @ [k])"
  by (simp add: dict_set_def dict_keys_def update_keys)

lemma dict_set_new: "k \<notin> set (dict_keys d) \<Longrightarrow> dict_set d k v = d @ [(k, v)]"
  unfolding dict_set_def dict_keys_def
  by (induction d) auto

lemma foldl_fromkeys:
  "distinct ks \<Longrightarrow> set ks \<inter> set (dict_keys acc) = {} \<Longrightarrow>
     foldl (\<lambda>d k. dict_set d k PyNone) acc ks = acc @ map (\<lambda>k. (k, PyNone)) ks"
proof (induction ks arbitrary: acc)
  case Nil
  then show ?case by simp
next
  case (Cons k ks)
  from Cons.prems have n: "k \<notin> set (dict_keys acc)" by auto
  have "set ks \<inter> set (dict_keys (acc @ [(k, PyNone)])) = {}"
    using Cons.prems by (auto simp: dict_keys_def)
  with Cons.IH [of "acc @ [(k, PyNone)]"] Cons.prems n show ?case
    by (simp add: dict_set_new)
qed

lemma fromkeys_distinct: "distinct ks \<Longrightarrow> fromkeys ks = map (\<lambda>k. (k, PyNone)) ks"
  using foldl_fromkeys [of ks "[]"] by (simp add: fromkeys_def dict_keys_def)

lemma keys_fromkeys: "distinct ks \<Longrightarrow> dict_keys (fromkeys ks) = ks"
  by (simp add: fromkeys_distinct dict_keys_def comp_def)

lemma alist_eqI:
  "distinct (map fst xs) \<Longrightarrow> map fst xs = map fst ys \<Longrightarrow> map_of xs = map_of ys \<Longrightarrow> xs = ys"
proof (induction xs arbitrary: ys)
  case Nil
  then show ?case by simp
next
  case (Cons x xs)
  then obtain y ys' where ys: "ys = y # ys'" by (cases ys) auto
  obtain k v where x: "x = (k, v)" by (cases x)
  obtain k' v' where y: "y = (k', v')" by (cases y)
  from Cons.prems ys x y have kk: "k' = k" by simp
  from fun_cong [OF Cons.prems(3), of k] ys x y kk have vv: "v' = v" by simp
  have "map_of xs = map_of ys'"
  proof
    fix a
    show "map_of xs a = map_of ys' a"
    proof (cases "a = k")
      case True
      from Cons.prems(2) ys have "map fst xs = map fst ys'" by simp
      then have s: "fst ` set xs = fst ` set ys'" by (metis set_map)
      from True Cons.prems(1) x have "a \<notin> fst ` set xs" by auto
      with s have "a \<notin> fst ` set ys'" by simp
      with \<open>a \<notin> fst ` set xs\<close> show ?thesis by (metis map_of_eq_None_iff)
    next
      case False
      from fun_cong [OF Cons.prems(3), of a] False x y ys kk show ?thesis by simp
    qed
  qed
  with Cons.IH [of ys'] Cons.prems ys show ?case
    using x y kk vv by simp
qed

subsection \<open>What a successful construction tells\<close>

lemma DVector_init_Inr:
  assumes "DVector_init E zs seg d tf infl pc = Inr r"
  shows "zoning_system r = zs" and "segmentation r = seg"
    and "validate_time_format seg tf = Inr (time_format_attr r)"
    and "dict_to_dvec zs seg d infl = (None, data_attr r)"
    and "process_count r = set_process_count E pc"
  using assms
  by (auto simp: DVector_init_def split: sum.splits prod.splits option.splits)

lemma validate_time_format_TfNone:
  "validate_time_format seg TfNone =
     (if has_time_period_segments seg then Inl ValueError else Inr None)"
  by (simp add: validate_time_format_def)

lemma DVector_init_TfNone_tp:
  "has_time_period_segments seg \<Longrightarrow> DVector_init E zs seg d TfNone infl pc = Inl ValueError"
  by (simp add: DVector_init_def validate_time_format_TfNone)

subsection \<open>Time format conversion and its round trip\<close>

lemma dict_to_dvec_complete:
  "set (dict_keys d) = set (segment_names seg) \<Longrightarrow> dict_to_dvec zs seg d infl = (None, d)"
  by (simp add: dict_to_dvec_def not_in_def is_correct_naming_def list_all_iff)

lemma val_mul_scale: "v \<noteq> PyNone \<Longrightarrow> val_mul v (PyNum f) = Inr (scale f v)"
  by (cases v) simp_all

lemma val_mul_PyNum_Inr: "val_mul v (PyNum f) = Inr c \<Longrightarrow> c = scale f v \<and> v \<noteq> PyNone"
  by (cases v) auto

lemma scale_scale:
  assumes "f * g = 1"
  shows "scale g (scale f v) = v"
proof -
  have e: "x * f * g = x" for x :: real
    using assms by (simp add: mult.assoc)
  show ?thesis
  proof (cases v)
    case (NpArr xs)
    have "map (\<lambda>x. x * f * g) xs = xs"
      by (induction xs) (simp_all add: e)
    with NpArr show ?thesis by (simp add: comp_def)
  qed (simp_all add: e)
qed

lemma scale_eq_PyNone: "scale f v = PyNone \<longleftrightarrow> v = PyNone"
  by (cases v) simp_all

lemma convert_segments_Inr:
  "convert_segments segs f d acc = Inr r \<Longrightarrow> set segs \<subseteq> set (dict_keys acc) \<Longrightarrow>
     dict_keys r = dict_keys acc
     \<and> (\<forall>k. map_of r k = (if k \<in> set segs then map_option (scale f) (map_of d k)
                           else map_of acc k))"
proof (induction segs arbitrary: acc)
  case Nil
  then show ?case by simp
next
  case (Cons s segs)
  from Cons.prems(1) obtain v c where
    v: "map_of d s = Some v" and c: "val_mul v (PyNum f) = Inr c"
    and rest: "convert_segments segs f d (dict_set acc s c) = Inr r"
    by (auto simp: dict_get_def split: option.splits sum.splits)
  from Cons.prems(2) have k: "dict_keys (dict_set acc s c) = dict_keys acc"
    by (simp add: keys_dict_set)
  with Cons.prems(2) have "set segs \<subseteq> set (dict_keys (dict_set acc s c))" by simp
  from Cons.IH [OF rest this] k val_mul_PyNum_Inr [OF c] v show ?case
    by (auto simp: map_of_dict_set)
qed

lemma convert_segments_total:
  "\<forall>s \<in> set segs. \<exists>v. map_of d s = Some v \<and> v \<noteq> PyNone \<Longrightarrow>
     \<exists>r. convert_segments segs f d acc = Inr r"
proof (induction segs arbitrary: acc)
  case Nil
  then show ?case by simp
next
  case (Cons s segs)
  then obtain v where v: "map_of d s = Some v" "v \<noteq> PyNone" by auto
  from Cons.IH [of "dict_set acc s (scale f v)"] Cons.prems v show ?case
    by (simp add: dict_get_def val_mul_scale)
qed

lemma convert_groups_Inr:
  "convert_groups g cf d acc = Inr r \<Longrightarrow>
   \<forall>(tp, segs) \<in> set g. set segs \<subseteq> set (dict_keys acc) \<Longrightarrow>
     dict_keys r = dict_keys acc
     \<and> (\<forall>k. map_of r k =
           (case last_tp g k of
              None \<Rightarrow> map_of acc k
            | Some tp \<Rightarrow> map_option (scale (the (map_of cf tp))) (map_of d k)))"
proof (induction g arbitrary: acc)
  case Nil
  then show ?case by simp
next
  case (Cons a g)
  obtain tp segs where a: "a = (tp, segs)" by (cases a)
  show ?case
  proof (cases "segs = []")
    case True
    with Cons.prems a have "convert_groups g cf d acc = Inr r" by simp
    from Cons.IH [OF this] Cons.prems(2) a True show ?thesis
      by (auto split: option.splits)
  next
    case False
    with Cons.prems(1) a obtain f a1 where
      f: "map_of cf tp = Some f" and a1: "convert_segments segs f d acc = Inr a1"
      and rest: "convert_groups g cf d a1 = Inr r"
      by (auto simp: dict_get_def split: option.splits sum.splits)
    from Cons.prems(2) a have sub: "set segs \<subseteq> set (dict_keys acc)" by simp
    note cs = convert_segments_Inr [OF a1 sub]
    from Cons.prems(2) cs have "\<forall>(tp, segs) \<in> set g. set segs \<subseteq> set (dict_keys a1)"
      by auto
    from Cons.IH [OF rest this] cs a f show ?thesis
      by (auto split: option.splits)
  qed
qed

lemma convert_groups_total:
  "\<forall>(tp, segs) \<in> set g. tp \<in> set (dict_keys cf)
       \<and> (\<forall>s \<in> set segs. \<exists>v. map_of d s = Some v \<and> v \<noteq> PyNone) \<Longrightarrow>
     \<exists>r. convert_groups g cf d acc = Inr r"
proof (induction g arbitrary: acc)
  case Nil
  then show ?case by simp
next
  case (Cons a g)
  obtain tp segs where a: "a = (tp, segs)" by (cases a)
  from Cons.prems a have "tp \<in> set (dict_keys cf)" by simp
  then have "map_of cf tp \<noteq> None"
    by (simp add: dict_keys_def map_of_eq_None_iff)
  then obtain f where f: "map_of cf tp = Some f" by blast
  from Cons.prems a have "\<forall>s \<in> set segs. \<exists>v. map_of d s = Some v \<and> v \<noteq> PyNone" by simp
  from convert_segments_total [OF this] obtain a1 where
    a1: "convert_segments segs f d acc = Inr a1" by blast
  from Cons.prems have "\<forall>(tp, segs) \<in> set g. tp \<in> set (dict_keys cf)
       \<and> (\<forall>s \<in> set segs. \<exists>v. map_of d s = Some v \<and> v \<noteq> PyNone)" by simp
  from Cons.IH [OF this, of a1] a f a1 show ?case
    by (cases "segs = []") (auto simp: dict_get_def)
qed

lemma last_tp_Some: "last_tp g k = Some tp \<Longrightarrow> \<exists>segs. (tp, segs) \<in> set g \<and> k \<in> set segs"
  by (induction g) (auto split: option.splits if_splits)

lemma last_tp_None: "last_tp g k = None \<longleftrightarrow> k \<notin> set (concat (map snd g))"
  by (induction g) (auto split: option.splits if_splits)

lemmas factor_defs = get_conversion_factors_def week_to_day_factors_def
  day_to_hour_factors_def day_to_week_factors_def hour_to_day_factors_def
  week_to_hour_factors_def hour_to_week_factors_def dict_get_def dict_keys_def
  get_time_periods_def

lemma conversion_factors_keys:
  "t \<noteq> t' \<Longrightarrow> \<exists>cf. get_conversion_factors t t' = Inr cf \<and> dict_keys cf = get_time_periods"
  by (cases t; cases t') (simp_all add: factor_defs)

lemma day_week_inverse:
  assumes "tp \<in> set get_time_periods"
  shows "the (map_of day_to_week_factors tp) * the (map_of week_to_day_factors tp) = 1"
  using assms by (auto simp: factor_defs)

lemma in_groups: "(p, segs) \<in> set g \<Longrightarrow> s \<in> set segs \<Longrightarrow> s \<in> set (concat (map snd g))"
  by force

lemma validate_time_format_TfEnum:
  "validate_time_format seg (TfEnum t) = Inr (Some t)"
  by (simp add: validate_time_format_def)

lemma copy_valid:
  assumes "valid_dvec v" "time_format_attr v = Some t"
  shows "copy E v = Inr (v\<lparr>process_count := set_process_count E (process_count v),
                           chunk_divider := chunk_divider_of (set_process_count E (process_count v))\<rparr>)"
  using assms
  by (simp add: copy_def DVector_init_def validate_time_format_TfEnum valid_dvec_def
      dict_to_dvec_complete)

lemma convert_time_format_other:
  assumes v: "valid_dvec v" and tp: "has_time_period_segments (segmentation v)"
    and t: "time_format_attr v = Some t" and ne: "t \<noteq> t'"
    and cover: "set (concat (map snd (time_period_groups (segmentation v))))
                  \<subseteq> set (segment_names (segmentation v))"
    and known: "set (dict_keys (time_period_groups (segmentation v))) \<subseteq> set get_time_periods"
  shows "\<exists>r cf. get_conversion_factors t t' = Inr cf
           \<and> convert_time_format E v (TfEnum t') = Inr r
           \<and> zoning_system r = zoning_system v \<and> segmentation r = segmentation v
           \<and> time_format_attr r = Some t'
           \<and> dict_keys (data_attr r) = dict_keys (data_attr v)
           \<and> (\<forall>k. map_of (data_attr r) k =
                 (case last_tp (time_period_groups (segmentation v)) k of
                    None \<Rightarrow> map_of (fromkeys (dict_keys (data_attr v))) k
                  | Some p \<Rightarrow> map_option (scale (the (map_of cf p))) (map_of (data_attr v) k)))"
proof -
  let ?g = "time_period_groups (segmentation v)"
  let ?d = "data_attr v"
  from conversion_factors_keys [OF ne] obtain cf where
    cf: "get_conversion_factors t t' = Inr cf" and ks: "dict_keys cf = get_time_periods"
    by blast
  from v have dist: "distinct (dict_keys ?d)"
    and keys: "set (dict_keys ?d) = set (segment_names (segmentation v))"
    and nn: "PyNone \<notin> snd ` set ?d"
    by (simp_all add: valid_dvec_def)
  have tot: "\<forall>(p, segs) \<in> set ?g. p \<in> set (dict_keys cf)
       \<and> (\<forall>s \<in> set segs. \<exists>x. map_of ?d s = Some x \<and> x \<noteq> PyNone)"
  proof (clarify, intro conjI ballI)
    fix p segs assume m: "(p, segs) \<in> set ?g"
    then have "p \<in> set (dict_keys ?g)" by (force simp: dict_keys_def)
    with known ks show "p \<in> set (dict_keys cf)" by auto
    fix s assume "s \<in> set segs"
    with m have "s \<in> set (concat (map snd ?g))" by (rule in_groups)
    with cover keys have "s \<in> set (dict_keys ?d)" by blast
    then have "map_of ?d s \<noteq> None" by (simp add: dict_keys_def map_of_eq_None_iff)
    then obtain x where x: "map_of ?d s = Some x" by blast
    then have "(s, x) \<in> set ?d" by (rule map_of_SomeD)
    with nn have "x \<noteq> PyNone" by force
    with x show "\<exists>x. map_of ?d s = Some x \<and> x \<noteq> PyNone" by blast
  qed
  from convert_groups_total [OF tot] obtain d' where
    d': "convert_groups ?g cf ?d (fromkeys (dict_keys ?d)) = Inr d'" by blast
  have sub: "\<forall>(p, segs) \<in> set ?g. set segs \<subseteq> set (dict_keys (fromkeys (dict_keys ?d)))"
    using cover keys dist in_groups [of _ _ ?g] by (fastforce simp: keys_fromkeys)
  note ch = convert_groups_Inr [OF d' sub]
  from ch dist have k': "dict_keys d' = dict_keys ?d" by (simp add: keys_fromkeys)
  with keys have c: "dict_to_dvec (zoning_system v) (segmentation v) d' (PyInfill 0) = (None, d')"
    by (simp add: dict_to_dvec_complete)
  have nomiss: "\<not> (\<exists>p \<in> set (dict_keys ?g). p \<notin> set (dict_keys cf))"
    using known ks by auto
  have "convert_time_format E v (TfEnum t') =
          Inr \<lparr>zoning_system = zoning_system v, segmentation = segmentation v,
               time_format_attr = Some t', data_attr = d',
               process_count = set_process_count E (process_count v),
               chunk_divider = chunk_divider_of (set_process_count E (process_count v))\<rparr>"
    using tp t ne cf nomiss d' c
    by (simp add: convert_time_format_def validate_time_format_TfEnum DVector_init_def
        Let_def)
  with cf k' ch show ?thesis by simp
qed

lemma map_of_fromkeys_None:
  "distinct ks \<Longrightarrow> k \<notin> set ks \<Longrightarrow> map_of (fromkeys ks) k = None"
  by (simp add: fromkeys_distinct map_of_eq_None_iff image_iff)

lemma convert_time_format_valid:
  assumes v: "valid_dvec v"
    and cover: "set (concat (map snd (time_period_groups (segmentation v))))
                  = set (segment_names (segmentation v))"
    and r: "segmentation r = segmentation v" "time_format_attr r = Some t'"
      "dict_keys (data_attr r) = dict_keys (data_attr v)"
      "\<forall>k. map_of (data_attr r) k =
                 (case last_tp (time_period_groups (segmentation v)) k of
                    None \<Rightarrow> map_of (fromkeys (dict_keys (data_attr v))) k
                  | Some p \<Rightarrow> map_option (scale (F p)) (map_of (data_attr v) k))"
  shows "valid_dvec r"
proof -
  let ?g = "time_period_groups (segmentation v)"
  from v have dist: "distinct (dict_keys (data_attr v))"
    and keys: "set (dict_keys (data_attr v)) = set (segment_names (segmentation v))"
    and nn: "PyNone \<notin> snd ` set (data_attr v)"
    by (simp_all add: valid_dvec_def)
  have "x \<noteq> PyNone" if m: "(k, x) \<in> set (data_attr r)" for k x
  proof -
    from dist r(3) have "distinct (map fst (data_attr r))" by (simp add: dict_keys_def)
    with m have mo: "map_of (data_attr r) k = Some x" by simp
    from m have "k \<in> set (dict_keys (data_attr r))" by (force simp: dict_keys_def)
    with r(3) keys cover have "k \<in> set (concat (map snd ?g))" by simp
    then obtain p where p: "last_tp ?g k = Some p"
      using last_tp_None [of ?g k] by (cases "last_tp ?g k") auto
    with r(4) mo obtain y where y: "map_of (data_attr v) k = Some y" "x = scale (F p) y"
      by (auto simp: map_option_case split: option.splits)
    from y(1) have "(k, y) \<in> set (data_attr v)" by (rule map_of_SomeD)
    with nn have "y \<noteq> PyNone" by force
    with y(2) show ?thesis by (simp add: scale_eq_PyNone)
  qed
  then have "PyNone \<notin> snd ` set (data_attr r)" by force
  with dist keys r show ?thesis by (simp add: valid_dvec_def)
qed


lemma day_week_day:
  assumes w: "valid_dvec w" and tp: "has_time_period_segments (segmentation w)"
    and t: "time_format_attr w = Some AVG_DAY"
    and cover: "set (concat (map snd (time_period_groups (segmentation w))))
                  = set (segment_names (segmentation w))"
    and known: "set (dict_keys (time_period_groups (segmentation w))) \<subseteq> set get_time_periods"
  shows "\<exists>w2 w3. convert_time_format E w (TfEnum AVG_WEEK) = Inr w2
           \<and> convert_time_format E w2 (TfEnum AVG_DAY) = Inr w3
           \<and> data_attr w3 = data_attr w \<and> zoning_system w3 = zoning_system w
           \<and> segmentation w3 = segmentation w \<and> time_format_attr w3 = time_format_attr w"
proof -
  let ?g = "time_period_groups (segmentation w)"
  from cover have sub: "set (concat (map snd ?g)) \<subseteq> set (segment_names (segmentation w))"
    by simp
  from convert_time_format_other [OF w tp t _ sub known, of AVG_WEEK E]
  obtain w2 where w2: "convert_time_format E w (TfEnum AVG_WEEK) = Inr w2"
    "zoning_system w2 = zoning_system w" "segmentation w2 = segmentation w"
    "time_format_attr w2 = Some AVG_WEEK" "dict_keys (data_attr w2) = dict_keys (data_attr w)"
    "\<forall>k. map_of (data_attr w2) k =
           (case last_tp ?g k of
              None \<Rightarrow> map_of (fromkeys (dict_keys (data_attr w))) k
            | Some p \<Rightarrow> map_option (scale (the (map_of day_to_week_factors p)))
                         (map_of (data_attr w) k))"
    by (auto simp: get_conversion_factors_def)
  from convert_time_format_valid [OF w cover w2(3,4,5,6)] have v2: "valid_dvec w2" .
  from tp w2(3) have tp2: "has_time_period_segments (segmentation w2)" by simp
  from cover w2(3) have sub2:
    "set (concat (map snd (time_period_groups (segmentation w2))))
       \<subseteq> set (segment_names (segmentation w2))" by simp
  from known w2(3) have known2:
    "set (dict_keys (time_period_groups (segmentation w2))) \<subseteq> set get_time_periods" by simp
  from convert_time_format_other [OF v2 tp2 w2(4) _ sub2 known2, of AVG_DAY E]
  obtain w3 where w3': "convert_time_format E w2 (TfEnum AVG_DAY) = Inr w3"
    "zoning_system w3 = zoning_system w2" "segmentation w3 = segmentation w2"
    "time_format_attr w3 = Some AVG_DAY" "dict_keys (data_attr w3) = dict_keys (data_attr w2)"
    "\<forall>k. map_of (data_attr w3) k =
           (case last_tp (time_period_groups (segmentation w2)) k of
              None \<Rightarrow> map_of (fromkeys (dict_keys (data_attr w2))) k
            | Some p \<Rightarrow> map_option (scale (the (map_of week_to_day_factors p)))
                         (map_of (data_attr w2) k))"
    by (auto simp: get_conversion_factors_def)
  from w3' w2(3,5) have w3: "convert_time_format E w2 (TfEnum AVG_DAY) = Inr w3"
    "zoning_system w3 = zoning_system w2" "segmentation w3 = segmentation w"
    "time_format_attr w3 = Some AVG_DAY" "dict_keys (data_attr w3) = dict_keys (data_attr w)"
    "\<forall>k. map_of (data_attr w3) k =
           (case last_tp ?g k of
              None \<Rightarrow> map_of (fromkeys (dict_keys (data_attr w))) k
            | Some p \<Rightarrow> map_option (scale (the (map_of week_to_day_factors p)))
                         (map_of (data_attr w2) k))"
    by (simp_all cong: option.case_cong)
  from w have dist: "distinct (dict_keys (data_attr w))"
    and keys: "set (dict_keys (data_attr w)) = set (segment_names (segmentation w))"
    by (simp_all add: valid_dvec_def)
  have "map_of (data_attr w3) k = map_of (data_attr w) k" for k
  proof (cases "last_tp ?g k")
    case None
    then have "k \<notin> set (concat (map snd ?g))"
      using last_tp_None [of ?g k] by blast
    with cover keys have "k \<notin> set (dict_keys (data_attr w))"
      by blast
    then have "map_of (data_attr w) k = None"
      "map_of (fromkeys (dict_keys (data_attr w))) k = None"
      using dist by (simp_all add: map_of_fromkeys_None dict_keys_def map_of_eq_None_iff)
    with None w3(6) show ?thesis by simp
  next
    case (Some p)
    from last_tp_Some [OF Some] have "p \<in> set (dict_keys ?g)"
      by (force simp: dict_keys_def)
    with known have "p \<in> set get_time_periods" by blast
    from day_week_inverse [OF this] scale_scale
    have "scale (the (map_of week_to_day_factors p))
            (scale (the (map_of day_to_week_factors p)) x) = x" for x
      by blast
    with Some w3(6) w2(6) show ?thesis
      by (cases "map_of (data_attr w) k") simp_all
  qed
  then have "map_of (data_attr w3) = map_of (data_attr w)" by (rule ext)
  with w3(5) dist have "data_attr w3 = data_attr w"
    by (intro alist_eqI) (simp_all add: dict_keys_def)
  with w2 w3 t show ?thesis by simp
qed

lemma conversion_factor_row:
  assumes "conversion_factor AVG_WEEK AVG_DAY tp = Inr wd"
    and "conversion_factor AVG_DAY AVG_HOUR tp = Inr dh"
    and "conversion_factor AVG_WEEK AVG_HOUR tp = Inr (wd * dh)"
    and "conversion_factor AVG_DAY AVG_WEEK tp = Inr (1 / wd)"
    and "conversion_factor AVG_HOUR AVG_DAY tp = Inr (1 / dh)"
    and "conversion_factor AVG_HOUR AVG_WEEK tp = Inr ((1 / dh) * (1 / wd))"
  shows "\<exists>wd dh. conversion_factor AVG_WEEK AVG_DAY tp = Inr wd
           \<and> conversion_factor AVG_DAY AVG_HOUR tp = Inr dh
           \<and> conversion_factor AVG_WEEK AVG_HOUR tp = Inr (wd * dh)
           \<and> conversion_factor AVG_DAY AVG_WEEK tp = Inr (1 / wd)
           \<and> conversion_factor AVG_HOUR AVG_DAY tp = Inr (1 / dh)
           \<and> conversion_factor AVG_HOUR AVG_WEEK tp = Inr ((1 / dh) * (1 / wd))
           \<and> (1 / dh) * (1 / wd) = 1 / (wd * dh)"
  using assms by (intro exI [of _ wd] exI [of _ dh]) simp

lemma conversion_factor_table:
  assumes "tp \<in> set get_time_periods"
  shows "\<exists>wd dh. conversion_factor AVG_WEEK AVG_DAY tp = Inr wd
           \<and> conversion_factor AVG_DAY AVG_HOUR tp = Inr dh
           \<and> conversion_factor AVG_WEEK AVG_HOUR tp = Inr (wd * dh)
           \<and> conversion_factor AVG_DAY AVG_WEEK tp = Inr (1 / wd)
           \<and> conversion_factor AVG_HOUR AVG_DAY tp = Inr (1 / dh)
           \<and> conversion_factor AVG_HOUR AVG_WEEK tp = Inr ((1 / dh) * (1 / wd))
           \<and> (1 / dh) * (1 / wd) = 1 / (wd * dh)"
proof -
  from assms consider "tp = 1" | "tp = 2" | "tp = 3" | "tp = 4" | "tp = 5" | "tp = 6"
    by (auto simp: get_time_periods_def)
  then show ?thesis
  proof cases
    case 1
    show ?thesis
      by (rule conversion_factor_row [of tp "1/5" "1/3"])
        (simp_all add: 1 conversion_factor_def factor_defs)
  next
    case 2
    show ?thesis
      by (rule conversion_factor_row [of tp "1/5" "1/6"])
        (simp_all add: 2 conversion_factor_def factor_defs)
  next
    case 3
    show ?thesis
      by (rule conversion_factor_row [of tp "1/5" "1/3"])
        (simp_all add: 3 conversion_factor_def factor_defs)
  next
    case 4
    show ?thesis
      by (rule conversion_factor_row [of tp "1/5" "1/12"])
        (simp_all add: 4 conversion_factor_def factor_defs)
  next
    case 5
    show ?thesis
      by (rule conversion_factor_row [of tp 1 "1/24"])
        (simp_all add: 5 conversion_factor_def factor_defs)
  next
    case 6
    show ?thesis
      by (rule conversion_factor_row [of tp 1 "1/24"])
        (simp_all add: 6 conversion_factor_def factor_defs)
  qed
qed

lemma convert_time_format_same:
  assumes v: "valid_dvec v" and tp: "has_time_period_segments (segmentation v)"
    and t: "time_format_attr v = Some t"
    and a: "validate_time_format (segmentation v) arg = Inr (Some t)"
  shows "convert_time_format E v arg = copy E v"
  using tp t a by (simp add: convert_time_format_def)

text \<open>
  C6. Let \<open>v\<close> be a vector with a time format, over a segmentation with time period
  segments whose time period groups cover the segments and use only the time periods
  1 to 6, for which the conversion factors are known. Converting \<open>v\<close> to the format
  it already has returns a vector with the same data, zoning system, segmentation and
  time format. The conversions to \<^verbatim>\<open>AVG_DAY\<close>, from there to \<^verbatim>\<open>AVG_WEEK\<close>
  and back to \<^verbatim>\<open>AVG_DAY\<close> all return, and the last result has the data of the
  first. For each time period the week to hour factor is the product of the week to
  day and the day to hour factor, the hour to week factor the product of the hour to
  day and the day to week factor, and each backward factor is the reciprocal of the
  forward one.
\<close>

theorem convert_time_format_round_trip:
  assumes v: "valid_dvec v" and tp: "has_time_period_segments (segmentation v)"
    and t: "time_format_attr v = Some t"
    and cover: "set (concat (map snd (time_period_groups (segmentation v))))
                  = set (segment_names (segmentation v))"
    and known: "set (dict_keys (time_period_groups (segmentation v))) \<subseteq> set get_time_periods"
  shows "(validate_time_format (segmentation v) arg = Inr (Some t) \<longrightarrow>
            (\<exists>r. convert_time_format E v arg = Inr r
               \<and> data_attr r = data_attr v \<and> zoning_system r = zoning_system v
               \<and> segmentation r = segmentation v \<and> time_format_attr r = time_format_attr v))
         \<and> (\<exists>v1 v2 v3. convert_time_format E v (TfEnum AVG_DAY) = Inr v1
               \<and> convert_time_format E v1 (TfEnum AVG_WEEK) = Inr v2
               \<and> convert_time_format E v2 (TfEnum AVG_DAY) = Inr v3
               \<and> data_attr v3 = data_attr v1 \<and> zoning_system v3 = zoning_system v1
               \<and> segmentation v3 = segmentation v1
               \<and> time_format_attr v3 = time_format_attr v1)
         \<and> (\<forall>tp \<in> set get_time_periods. \<exists>wd dh.
               conversion_factor AVG_WEEK AVG_DAY tp = Inr wd
               \<and> conversion_factor AVG_DAY AVG_HOUR tp = Inr dh
               \<and> conversion_factor AVG_WEEK AVG_HOUR tp = Inr (wd * dh)
               \<and> conversion_factor AVG_DAY AVG_WEEK tp = Inr (1 / wd)
               \<and> conversion_factor AVG_HOUR AVG_DAY tp = Inr (1 / dh)
               \<and> conversion_factor AVG_HOUR AVG_WEEK tp = Inr ((1 / dh) * (1 / wd))
               \<and> (1 / dh) * (1 / wd) = 1 / (wd * dh))"
proof (intro conjI impI)
  assume a: "validate_time_format (segmentation v) arg = Inr (Some t)"
  from convert_time_format_same [OF v tp t a] copy_valid [OF v t]
  show "\<exists>r. convert_time_format E v arg = Inr r
               \<and> data_attr r = data_attr v \<and> zoning_system r = zoning_system v
               \<and> segmentation r = segmentation v \<and> time_format_attr r = time_format_attr v"
    by simp
next
  from cover have sub: "set (concat (map snd (time_period_groups (segmentation v))))
                  \<subseteq> set (segment_names (segmentation v))" by simp
  have "\<exists>v1. convert_time_format E v (TfEnum AVG_DAY) = Inr v1 \<and> valid_dvec v1
          \<and> segmentation v1 = segmentation v \<and> time_format_attr v1 = Some AVG_DAY"
  proof (cases "t = AVG_DAY")
    case True
    with t have a: "validate_time_format (segmentation v) (TfEnum AVG_DAY) = Inr (Some t)"
      by (simp add: validate_time_format_TfEnum)
    from v have "valid_dvec (v\<lparr>process_count := p, chunk_divider := c\<rparr>)" for p c
      by (simp add: valid_dvec_def)
    with convert_time_format_same [OF v tp t a] copy_valid [OF v t] t True
    show ?thesis by simp
  next
    case False
    from convert_time_format_other [OF v tp t False sub known, of E]
    obtain v1 cf where v1: "convert_time_format E v (TfEnum AVG_DAY) = Inr v1"
      "segmentation v1 = segmentation v" "time_format_attr v1 = Some AVG_DAY"
      "dict_keys (data_attr v1) = dict_keys (data_attr v)"
      "\<forall>k. map_of (data_attr v1) k =
           (case last_tp (time_period_groups (segmentation v)) k of
              None \<Rightarrow> map_of (fromkeys (dict_keys (data_attr v))) k
            | Some p \<Rightarrow> map_option (scale (the (map_of cf p))) (map_of (data_attr v) k))"
      by blast
    from convert_time_format_valid [OF v cover v1(2,3,4,5)] v1 show ?thesis by blast
  qed
  then obtain v1 where v1: "convert_time_format E v (TfEnum AVG_DAY) = Inr v1"
    "valid_dvec v1" "segmentation v1 = segmentation v" "time_format_attr v1 = Some AVG_DAY"
    by blast
  from tp cover known v1(3) have
    "has_time_period_segments (segmentation v1)"
    "set (concat (map snd (time_period_groups (segmentation v1))))
       = set (segment_names (segmentation v1))"
    "set (dict_keys (time_period_groups (segmentation v1))) \<subseteq> set get_time_periods"
    by simp_all
  from day_week_day [OF v1(2) this(1) v1(4) this(2,3), of E] v1(1)
  show "\<exists>v1 v2 v3. convert_time_format E v (TfEnum AVG_DAY) = Inr v1
               \<and> convert_time_format E v1 (TfEnum AVG_WEEK) = Inr v2
               \<and> convert_time_format E v2 (TfEnum AVG_DAY) = Inr v3
               \<and> data_attr v3 = data_attr v1 \<and> zoning_system v3 = zoning_system v1
               \<and> segmentation v3 = segmentation v1
               \<and> time_format_attr v3 = time_format_attr v1"
    by blast
next
  show "\<forall>tp \<in> set get_time_periods. \<exists>wd dh.
               conversion_factor AVG_WEEK AVG_DAY tp = Inr wd
               \<and> conversion_factor AVG_DAY AVG_HOUR tp = Inr dh
               \<and> conversion_factor AVG_WEEK AVG_HOUR tp = Inr (wd * dh)
               \<and> conversion_factor AVG_DAY AVG_WEEK tp = Inr (1 / wd)
               \<and> conversion_factor AVG_HOUR AVG_DAY tp = Inr (1 / dh)
               \<and> conversion_factor AVG_HOUR AVG_WEEK tp = Inr ((1 / dh) * (1 / wd))
               \<and> (1 / dh) * (1 / wd) = 1 / (wd * dh)"
    using conversion_factor_table by blast
qed

lemmas convert_defs = convert_time_format_def copy_def get_conversion_factors_def
  week_to_day_factors_def day_to_hour_factors_def day_to_week_factors_def
  hour_to_day_factors_def week_to_hour_factors_def hour_to_week_factors_def

theorem convert_time_format_round_trip_witness:
  "valid_dvec vec_week \<and> has_time_period_segments (segmentation vec_week)
   \<and> time_format_attr vec_week = Some AVG_WEEK
   \<and> validate_time_format (segmentation vec_week) (TfStr ''avg_week'') = Inr (Some AVG_WEEK)
   \<and> convert_time_format world vec_week (TfStr ''avg_week'') = Inr vec_week
   \<and> convert_time_format world vec_week (TfEnum AVG_DAY) = Inr vec_day
   \<and> convert_time_format world vec_day (TfEnum AVG_WEEK) = Inr vec_week
   \<and> conversion_factor AVG_WEEK AVG_HOUR 2 = Inr (1 / 30)
   \<and> conversion_factor AVG_HOUR AVG_WEEK 2 = Inr 30"
proof -
  have h: "valid_dvec vec_week" "has_time_period_segments (segmentation vec_week)"
    "time_format_attr vec_week = Some AVG_WEEK"
    "set (concat (map snd (time_period_groups (segmentation vec_week))))
       = set (segment_names (segmentation vec_week))"
    "set (dict_keys (time_period_groups (segmentation vec_week))) \<subseteq> set get_time_periods"
    by (simp_all add: valid_dvec_def world_defs dict_keys_def get_time_periods_def)
  have a: "validate_time_format (segmentation vec_week) (TfStr ''avg_week'')
             = Inr (Some AVG_WEEK)"
    by (simp add: world_defs init_defs)
  have c: "convert_time_format world vec_week (TfStr ''avg_week'') = Inr vec_week"
    "convert_time_format world vec_week (TfEnum AVG_DAY) = Inr vec_day"
    "convert_time_format world vec_day (TfEnum AVG_WEEK) = Inr vec_week"
    by (simp_all add: convert_defs world_defs init_defs)
  have f: "conversion_factor AVG_WEEK AVG_HOUR 2 = Inr (1 / 30)"
    "conversion_factor AVG_HOUR AVG_WEEK 2 = Inr 30"
    by (simp_all add: conversion_factor_def factor_defs)
  note rt = convert_time_format_round_trip [OF h, of "TfStr ''avg_week''" world]
  from rt a obtain r where "convert_time_format world vec_week (TfStr ''avg_week'') = Inr r"
    "data_attr r = data_attr vec_week"
    by blast
  with h a c f show ?thesis by simp
qed

subsection \<open>Construction from a dictionary\<close>

lemma infill_missing_None:
  "infill_missing names dv d = (None, d') \<Longrightarrow>
     set (dict_keys d') = set (dict_keys d) \<union> set names
     \<and> (\<forall>k. map_of d' k = (if k \<in> set names then Some dv else map_of d k))"
proof (induction names arbitrary: d)
  case Nil
  then show ?case by simp
next
  case (Cons n names)
  from Cons.prems obtain c where c: "val_copy dv = Inr c"
    and rest: "infill_missing names dv (dict_set d n c) = (None, d')"
    by (auto split: sum.splits)
  from c have "c = dv" by (cases dv) auto
  with Cons.IH [OF rest] show ?case
    by (auto simp: keys_dict_set map_of_dict_set)
qed

lemma dict_to_dvec_None:
  assumes "dict_to_dvec zs seg d infl = (None, d')"
  shows "set (dict_keys d') = set (segment_names seg)"
    and "\<forall>k \<in> set (dict_keys d). map_of d' k = map_of d k"
    and "\<forall>k \<in> set (segment_names seg) - set (dict_keys d).
           map_of d' k = Some (default_val zs infl)"
proof -
  from assms have i: "infill_missing (not_in seg d) (default_val zs infl) d = (None, d')"
    and n: "is_correct_naming seg (dict_keys d')"
    by (auto simp: dict_to_dvec_def split: prod.splits option.splits if_splits)
  note m = infill_missing_None [OF i]
  from n have "set (dict_keys d') \<subseteq> set (segment_names seg)"
    by (auto simp: is_correct_naming_def list_all_iff)
  moreover from m have "set (segment_names seg) \<subseteq> set (dict_keys d')"
    by (auto simp: not_in_def)
  ultimately show "set (dict_keys d') = set (segment_names seg)" by blast
  from m show "\<forall>k \<in> set (dict_keys d). map_of d' k = map_of d k"
    by (auto simp: not_in_def)
  from m show "\<forall>k \<in> set (segment_names seg) - set (dict_keys d).
           map_of d' k = Some (default_val zs infl)"
    by (auto simp: not_in_def)
qed

lemma DVector_init_ref_Inr:
  assumes "DVector_init_ref E h zs seg r tf infl pc = (Inr dv, h')"
  shows "data_attr dv = r" and "dict_to_dvec zs seg (h r) infl = (None, h' r)"
    and "\<forall>r'. r' \<noteq> r \<longrightarrow> h' r' = h r'"
  using assms
  by (auto simp: DVector_init_ref_def split: sum.splits prod.splits option.splits)

text \<open>
  A run of the infill loop that raises nothing over at least one missing name has
  copied the default value: the default value has a \<^verbatim>\<open>copy\<close> method.
\<close>

lemma infill_missing_copies:
  "infill_missing names dv d = (None, d') \<Longrightarrow> names \<noteq> [] \<Longrightarrow> val_copy dv = Inr dv"
  by (cases names; cases dv) (auto split: sum.splits)

text \<open>
  The value bound to a segment name that the dictionary lacked, written out: with a
  zoning system it is the array that holds the infill once for each zone; without one
  the infill is a numpy scalar and the value is that scalar.
\<close>

lemma dict_to_dvec_inserted:
  assumes d: "dict_to_dvec zs seg d infl = (None, d')"
    and k: "k \<in> set (segment_names seg) - set (dict_keys d)"
  shows "(zs = None \<longrightarrow> (\<exists>x. infl = NpInfill x \<and> map_of d' k = Some (NpScalar x)))
         \<and> (\<forall>z. zs = Some z \<longrightarrow>
               map_of d' k = Some (NpArr (replicate (n_zones z) (infill_real infl))))"
proof -
  from d have i: "infill_missing (not_in seg d) (default_val zs infl) d = (None, d')"
    by (auto simp: dict_to_dvec_def split: prod.splits option.splits if_splits)
  from k have m: "k \<in> set (not_in seg d)" by (simp add: not_in_def)
  then have ne: "not_in seg d \<noteq> []" by auto
  from infill_missing_None [OF i] m have v: "map_of d' k = Some (default_val zs infl)"
    by simp
  from infill_missing_copies [OF i ne]
  have c: "val_copy (default_val zs infl) = Inr (default_val zs infl)" .
  show ?thesis
  proof (cases zs)
    case None
    with c obtain x where "infl = NpInfill x"
      by (cases infl) (auto simp: default_val_def)
    with None v show ?thesis by (simp add: default_val_def)
  next
    case (Some z)
    with v show ?thesis by (simp add: default_val_def)
  qed
qed

text \<open>
  C9. When the constructor is given a dictionary and returns a vector, it has written
  into the caller's dictionary: the new vector's \<^verbatim>\<open>_data\<close> is the reference it
  was given, no copy; afterwards the keys of that dictionary are exactly the segment
  names of the segmentation; the entries it had are unchanged; every segment name it
  lacked is bound to the infill, which is the array of the infill repeated once for
  each zone when there is a zoning system and the scalar infill itself (a numpy
  scalar, since the construction returned) when there is none; and no other
  dictionary of the store has changed.
\<close>

theorem dict_constructor_mutates_import_data:
  assumes "DVector_init_ref E h zs seg r tf infl pc = (Inr dv, h')"
  shows "data_attr dv = r
         \<and> set (dict_keys (h' r)) = set (segment_names seg)
         \<and> (\<forall>k \<in> set (dict_keys (h r)). map_of (h' r) k = map_of (h r) k)
         \<and> (\<forall>k \<in> set (segment_names seg) - set (dict_keys (h r)).
               (zs = None \<longrightarrow>
                  (\<exists>x. infl = NpInfill x \<and> map_of (h' r) k = Some (NpScalar x)))
               \<and> (\<forall>z. zs = Some z \<longrightarrow>
                     map_of (h' r) k
                       = Some (NpArr (replicate (n_zones z) (infill_real infl)))))
         \<and> (\<forall>r'. r' \<noteq> r \<longrightarrow> h' r' = h r')"
proof -
  note i = DVector_init_ref_Inr [OF assms]
  note d = dict_to_dvec_None [OF i(2)]
  from dict_to_dvec_inserted [OF i(2)]
  have "\<forall>k \<in> set (segment_names seg) - set (dict_keys (h r)).
               (zs = None \<longrightarrow>
                  (\<exists>x. infl = NpInfill x \<and> map_of (h' r) k = Some (NpScalar x)))
               \<and> (\<forall>z. zs = Some z \<longrightarrow>
                     map_of (h' r) k
                       = Some (NpArr (replicate (n_zones z) (infill_real infl))))"
    by blast
  with i(1,3) d(1,2) show ?thesis by blast
qed

theorem dict_constructor_mutates_import_data_witness:
  "DVector_init_ref world heap_0 (Some zoning_Z) seg_AB 0 TfNone (PyInfill 7) 0
     = (Inr \<lparr>zoning_system = Some zoning_Z, segmentation = seg_AB, time_format_attr = None,
             data_attr = 0, process_count = 0, chunk_divider = 1\<rparr>,
        heap_0(0 := [(''A'', NpArr [10, 20, 0]), (''B'', NpArr [7, 7, 7])]))
   \<and> DVector_init_ref world heap_0 None seg_AB 1 TfNone (NpInfill 7) 0
     = (Inr \<lparr>zoning_system = None, segmentation = seg_AB, time_format_attr = None,
             data_attr = 1, process_count = 0, chunk_divider = 1\<rparr>,
        heap_0(1 := [(''A'', PyNum 1), (''B'', NpScalar 7)]))
   \<and> dict_keys (heap_0 0) = [''A''] \<and> dict_keys (heap_0 1) = [''A'']
   \<and> segment_names seg_AB = [''A'', ''B'']
   \<and> map_of ((heap_0(0 := [(''A'', NpArr [10, 20, 0]), (''B'', NpArr [7, 7, 7])])) 0) ''B''
       = Some (NpArr (replicate (n_zones zoning_Z) (infill_real (PyInfill 7))))
   \<and> map_of ((heap_0(1 := [(''A'', PyNum 1), (''B'', NpScalar 7)])) 1) ''B''
       = Some (NpScalar 7)"
proof -
  have e1: "DVector_init_ref world heap_0 (Some zoning_Z) seg_AB 0 TfNone (PyInfill 7) 0
     = (Inr \<lparr>zoning_system = Some zoning_Z, segmentation = seg_AB, time_format_attr = None,
             data_attr = 0, process_count = 0, chunk_divider = 1\<rparr>,
        heap_0(0 := [(''A'', NpArr [10, 20, 0]), (''B'', NpArr [7, 7, 7])]))"
    by (simp add: DVector_init_ref_def world_defs init_defs eval_nat_numeral)
  have e2: "DVector_init_ref world heap_0 None seg_AB 1 TfNone (NpInfill 7) 0
     = (Inr \<lparr>zoning_system = None, segmentation = seg_AB, time_format_attr = None,
             data_attr = 1, process_count = 0, chunk_divider = 1\<rparr>,
        heap_0(1 := [(''A'', PyNum 1), (''B'', NpScalar 7)]))"
    by (simp add: DVector_init_ref_def world_defs init_defs)
  have k: "dict_keys (heap_0 0) = [''A'']" "dict_keys (heap_0 1) = [''A'']"
    "segment_names seg_AB = [''A'', ''B'']"
    by (simp_all add: world_defs dict_keys_def)
  then have m: "''B'' \<in> set (segment_names seg_AB) - set (dict_keys (heap_0 0))"
    "''B'' \<in> set (segment_names seg_AB) - set (dict_keys (heap_0 1))"
    by simp_all
  from dict_constructor_mutates_import_data [OF e1] m(1)
  have v1: "map_of ((heap_0(0 := [(''A'', NpArr [10, 20, 0]), (''B'', NpArr [7, 7, 7])])) 0) ''B''
       = Some (NpArr (replicate (n_zones zoning_Z) (infill_real (PyInfill 7))))"
    by blast
  from dict_constructor_mutates_import_data [OF e2] m(2)
  have v2: "map_of ((heap_0(1 := [(''A'', PyNum 1), (''B'', NpScalar 7)])) 1) ''B''
       = Some (NpScalar 7)"
    by blast
  from e1 e2 k v1 v2 show ?thesis by blast
qed

lemma dict_to_dvec_infills:
  assumes "set (dict_keys d) \<subseteq> set (segment_names seg)"
    and "val_copy (default_val zs infl) = Inr (default_val zs infl)"
  shows "\<exists>d'. dict_to_dvec zs seg d infl = (None, d')
           \<and> set (dict_keys d') = set (segment_names seg)"
proof -
  have t: "\<exists>d'. infill_missing names (default_val zs infl) e = (None, d')" for names e
    using assms(2) by (induction names arbitrary: e) simp_all
  then obtain d' where i: "infill_missing (not_in seg d) (default_val zs infl) d = (None, d')"
    by blast
  from infill_missing_None [OF i] assms(1)
  have "set (dict_keys d') = set (segment_names seg)"
    by (auto simp: not_in_def)
  with i show ?thesis
    by (simp add: dict_to_dvec_def is_correct_naming_def list_all_iff)
qed

text \<open>
  C3. The construction from a dictionary does not succeed for every subset of the
  segments and every infill: without a zoning system the default value is the infill
  itself, and for a Python number (the default infill is \<open>0\<close>) the call
  \<^verbatim>\<open>default_val.copy()\<close> in \<^verbatim>\<open>_dict_to_dvec\<close> is an \<^verbatim>\<open>AttributeError\<close>
  as soon as one segment is missing. Here the segmentation has the segments A and B,
  the dictionary binds A only, and no vector is constructed.
\<close>

theorem dict_to_dvec_zoneless_infill_fails:
  "DVector_init world None seg_AB [(''A'', PyNum 1)] TfNone (PyInfill 0) 0 = Inl AttributeError
   \<and> set (segment_names seg_AB) - set (dict_keys [(''A'', PyNum 1)]) = {''B''}"
  by (simp add: world_defs init_defs)

subsection \<open>Balancing: the sums after the infill\<close>

lemmas balance_defs = balance_at_segments_def balance_value_def zero_infill_def

lemma validate_time_format_name:
  "validate_time_format seg (TfStr (tf_name t)) = Inr (Some t)"
  by (cases t) (simp_all add: init_defs)

lemma validate_time_format_of_valid:
  "has_time_period_segments seg \<longrightarrow> time_format_attr v \<noteq> None \<Longrightarrow>
     validate_time_format seg (time_format v) = Inr (time_format_attr v)"
  by (cases "time_format_attr v")
    (simp_all add: time_format_def validate_time_format_name validate_time_format_TfNone)

lemma sum_list_pos_real:
  fixes xs :: "real list"
  shows "xs \<noteq> [] \<Longrightarrow> \<forall>x \<in> set xs. 0 < x \<Longrightarrow> 0 < sum_list xs"
proof (induction xs)
  case Nil
  then show ?case by simp
next
  case (Cons x xs)
  then show ?case by (cases xs) (auto intro: add_pos_pos)
qed

lemma infill_zeros_np:
  assumes "x \<noteq> PyNone" "0 < c"
  shows "\<exists>x' s. infill_zeros c x = Inr x' \<and> x' \<noteq> PyNone \<and> np_sum x' = Inr s
           \<and> (x \<noteq> NpArr [] \<longrightarrow> 0 < s)
           \<and> (\<forall>f. val_mul x' (NpScalar f) = Inr (scale f x')
                  \<and> scale f x' \<noteq> PyNone
                  \<and> np_sum (scale f x') = Inr (s * f))"
proof (cases x)
  case PyNone
  with assms show ?thesis by simp
next
  case (PyNum a)
  with assms show ?thesis by simp
next
  case (NpScalar a)
  with assms show ?thesis by simp
next
  case (NpArr xs)
  let ?ys = "map (\<lambda>x. if x \<le> 0 then c else x) xs"
  have p: "xs \<noteq> [] \<longrightarrow> 0 < sum_list ?ys"
    using assms(2) by (auto intro!: sum_list_pos_real)
  with NpArr show ?thesis
    by (simp add: sum_list_mult_const comp_def)
qed

lemma infill_positive_entries:
  fixes xs :: "real list"
  shows "\<forall>x \<in> set xs. 0 < x \<Longrightarrow> map (\<lambda>x. if x \<le> 0 then c else x) xs = xs"
  by (induction xs) auto

lemma infill_zeros_positive:
  assumes "\<forall>e \<in> set (val_entries y). 0 < e" "infill_zeros c y = Inr y'"
  shows "np_sum y' = np_sum y"
  using assms by (cases y) (auto simp: infill_positive_entries)

lemma balance_value_sum:
  assumes x: "x \<noteq> PyNone" and y: "y \<noteq> PyNone" and c: "0 < c"
  shows "\<exists>x' y' b. infill_zeros c x = Inr x' \<and> infill_zeros c y = Inr y'
           \<and> balance_value x' y' = Inr b \<and> b \<noteq> PyNone
           \<and> (x \<noteq> NpArr [] \<longrightarrow> np_sum b = np_sum y')"
proof -
  from infill_zeros_np [OF y c] obtain y' so where
    y': "infill_zeros c y = Inr y'" "np_sum y' = Inr so" by blast
  from infill_zeros_np [OF x c] obtain x' ss where
    x': "infill_zeros c x = Inr x'" "np_sum x' = Inr ss" "x \<noteq> NpArr [] \<longrightarrow> 0 < ss"
      "\<forall>f. val_mul x' (NpScalar f) = Inr (scale f x') \<and> scale f x' \<noteq> PyNone
            \<and> np_sum (scale f x') = Inr (ss * f)"
    by blast
  let ?b = "scale (so / ss) x'"
  from x'(2,4) y'(2) have b: "balance_value x' y' = Inr ?b" "?b \<noteq> PyNone"
    by (simp_all add: balance_value_def)
  from x'(3,4) have "x \<noteq> NpArr [] \<longrightarrow> np_sum ?b = Inr so" by auto
  with x'(1) y' b show ?thesis by auto
qed

lemma balance_loop_other:
  "balance_loop segs sd od acc = Inr r \<Longrightarrow> k \<notin> set segs \<Longrightarrow> map_of r k = map_of acc k"
proof (induction segs arbitrary: acc)
  case Nil
  then show ?case by simp
next
  case (Cons s segs)
  from Cons.prems(1) obtain b where
    "balance_loop segs sd od (dict_set acc s b) = Inr r"
    by (auto split: sum.splits)
  from Cons.IH [OF this] Cons.prems(2) show ?case
    by (simp add: map_of_dict_set)
qed

lemma balance_loop_keys:
  "balance_loop segs sd od acc = Inr r \<Longrightarrow> set segs \<subseteq> set (dict_keys acc) \<Longrightarrow>
     dict_keys r = dict_keys acc"
proof (induction segs arbitrary: acc)
  case Nil
  then show ?case by simp
next
  case (Cons s segs)
  from Cons.prems(1) obtain b where
    r: "balance_loop segs sd od (dict_set acc s b) = Inr r"
    by (auto split: sum.splits)
  from Cons.prems(2) have "dict_keys (dict_set acc s b) = dict_keys acc"
    by (simp add: keys_dict_set)
  with Cons.IH [OF r] Cons.prems(2) show ?case by simp
qed

lemma balance_loop_Inr:
  "balance_loop segs sd od acc = Inr r \<Longrightarrow> seg \<in> set segs \<Longrightarrow>
     \<exists>x y x' y' b. dict_get sd seg = Inr x \<and> dict_get od seg = Inr y
       \<and> infill_zeros zero_infill x = Inr x' \<and> infill_zeros zero_infill y = Inr y'
       \<and> balance_value x' y' = Inr b \<and> map_of r seg = Some b"
proof (induction segs arbitrary: acc)
  case Nil
  then show ?case by simp
next
  case (Cons s segs)
  from Cons.prems(1) obtain x y x' y' b where
    h: "dict_get sd s = Inr x" "dict_get od s = Inr y"
      "infill_zeros zero_infill x = Inr x'" "infill_zeros zero_infill y = Inr y'"
      "balance_value x' y' = Inr b"
    and r: "balance_loop segs sd od (dict_set acc s b) = Inr r"
    by (auto split: sum.splits)
  show ?case
  proof (cases "seg \<in> set segs")
    case True
    from Cons.IH [OF r True] show ?thesis .
  next
    case False
    with Cons.prems(2) have e: "seg = s" by simp
    from balance_loop_other [OF r False] e have "map_of r seg = Some b"
      by (simp add: map_of_dict_set)
    with h e show ?thesis by blast
  qed
qed

lemma balance_loop_total:
  "\<forall>s \<in> set segs. \<exists>x y. dict_get sd s = Inr x \<and> x \<noteq> PyNone
       \<and> dict_get od s = Inr y \<and> y \<noteq> PyNone \<Longrightarrow>
     \<exists>r. balance_loop segs sd od acc = Inr r"
proof (induction segs arbitrary: acc)
  case Nil
  then show ?case by simp
next
  case (Cons s segs)
  then obtain x y where xy: "dict_get sd s = Inr x" "x \<noteq> PyNone"
    "dict_get od s = Inr y" "y \<noteq> PyNone" by auto
  have "0 < zero_infill" by (simp add: zero_infill_def)
  from balance_value_sum [OF xy(2,4) this] obtain x' y' b where
    "infill_zeros zero_infill x = Inr x'" "infill_zeros zero_infill y = Inr y'"
    "balance_value x' y' = Inr b" by blast
  with Cons.IH [of "dict_set acc s b"] Cons.prems xy show ?case by simp
qed

lemma valid_dvec_get:
  assumes "valid_dvec v" "s \<in> set (segment_names (segmentation v))"
  shows "\<exists>x. dict_get (data_attr v) s = Inr x \<and> x \<noteq> PyNone"
proof -
  from assms have "s \<in> fst ` set (data_attr v)"
    by (simp add: valid_dvec_def dict_keys_def)
  then have "map_of (data_attr v) s \<noteq> None" by (simp add: map_of_eq_None_iff)
  then obtain x where x: "map_of (data_attr v) s = Some x" by blast
  then have "(s, x) \<in> set (data_attr v)" by (rule map_of_SomeD)
  with assms(1) have "x \<noteq> PyNone" by (force simp: valid_dvec_def)
  with x show ?thesis by (simp add: dict_get_def)
qed


text \<open>
  C5. The method documents its result as a copy of \<open>self\<close> controlled to
  \<open>other\<close>, in which the total of each segment is equal across the two, and it
  documents the factor as \<^verbatim>\<open>other[segment].sum() / self[segment].sum()\<close>. It does
  not deliver that. Both vectors below have the segmentation with the segments A and B
  over two zones; \<open>other\<close> holds \<open>[-5, 10]\<close> for A, of sum 5. The call returns,
  and the balanced vector holds twice \<open>(10 + 1e-10) / 2\<close> for A, of sum
  \<open>10 + 1e-10\<close>: the infill of \<open>1e-10\<close> is applied by \<^verbatim>\<open>np.where\<close> to
  each entry of the arrays that is zero or negative, not to their sums, so the negative
  entry of \<open>other\<close> was replaced before its sum was taken. The sum of the result and
  the sum of \<open>other\<close> for segment A are not close.
\<close>

theorem balance_at_segments_totals_differ:
  "segmentation bal_self = segmentation bal_other
   \<and> balance_at_segments world bal_self bal_other False = Inr bal_result
   \<and> dict_get (data_attr bal_other) ''A'' = Inr (NpArr [- 5, 10])
   \<and> np_sum (NpArr [- 5, 10]) = Inr 5
   \<and> dict_get (data_attr bal_result) ''A''
       = Inr (NpArr [(10 + 1 / 10 ^ 10) / 2, (10 + 1 / 10 ^ 10) / 2])
   \<and> np_sum (NpArr [(10 + 1 / 10 ^ 10) / 2, (10 + 1 / 10 ^ 10) / 2]) = Inr (10 + 1 / 10 ^ 10)
   \<and> \<not> isclose (10 + 1 / 10 ^ 10) 5 (1 / 10000) 0
   \<and> \<not> segment_sums_close bal_result bal_other (1 / 10000) 0"
  by (simp add: balance_defs world_defs init_defs segment_sums_close_def isclose_def)

text \<open>
  What the balanced vector does satisfy. For two vectors that satisfy the invariant
  and have the same segmentation, the call without the weekday and weekend option
  returns a vector with the zoning system and time format of \<open>self\<close>; for every
  segment whose array in \<open>self\<close> is not empty, the sum of its array in the result is
  the sum of the array of \<open>other\<close> after the infill of its entries, which is the sum
  of the array of \<open>other\<close> itself when all its entries are positive. Two vectors
  whose segmentations differ in name give a \<^verbatim>\<open>ValueError\<close>.
\<close>

lemma balance_at_segments_infilled_sums:
  "(valid_dvec self \<and> valid_dvec other \<and> segmentation self = segmentation other \<longrightarrow>
      (\<exists>r. balance_at_segments E self other False = Inr r
         \<and> zoning_system r = zoning_system self \<and> segmentation r = segmentation other
         \<and> time_format_attr r = time_format_attr self
         \<and> (\<forall>seg \<in> set (segment_names (segmentation self)).
               \<exists>x y x' y' b.
                 dict_get (data_attr self) seg = Inr x
                 \<and> dict_get (data_attr other) seg = Inr y
                 \<and> infill_zeros zero_infill x = Inr x'
                 \<and> infill_zeros zero_infill y = Inr y'
                 \<and> dict_get (data_attr r) seg = Inr b
                 \<and> (x \<noteq> NpArr [] \<longrightarrow> np_sum b = np_sum y')
                 \<and> ((\<forall>e \<in> set (val_entries y). 0 < e) \<longrightarrow> np_sum y' = np_sum y))))
   \<and> (segmentation_name (segmentation self) \<noteq> segmentation_name (segmentation other) \<longrightarrow>
        balance_at_segments E self other split_weekday_weekend = Inl ValueError)"
proof (intro conjI impI)
  assume "segmentation_name (segmentation self) \<noteq> segmentation_name (segmentation other)"
  then show "balance_at_segments E self other split_weekday_weekend = Inl ValueError"
    by (simp add: balance_at_segments_def)
next
  assume a: "valid_dvec self \<and> valid_dvec other \<and> segmentation self = segmentation other"
  let ?names = "segment_names (segmentation self)"
  let ?sd = "data_attr self" and ?od = "data_attr other"
  have pos: "0 < zero_infill" by (simp add: zero_infill_def)
  from a have vs: "valid_dvec self" and vo: "valid_dvec other"
    and eq: "segmentation self = segmentation other" by simp_all
  have tot: "\<forall>s \<in> set ?names. \<exists>x y. dict_get ?sd s = Inr x \<and> x \<noteq> PyNone
       \<and> dict_get ?od s = Inr y \<and> y \<noteq> PyNone"
    using valid_dvec_get [OF vs] valid_dvec_get [OF vo] eq by metis
  from balance_loop_total [OF tot] obtain d where
    d: "balance_loop ?names ?sd ?od (fromkeys ?names) = Inr d" by blast
  have fk: "set (dict_keys (fromkeys ks)) = set ks" for ks :: "key list"
    unfolding fromkeys_def
  proof -
    have "set (dict_keys (foldl (\<lambda>d k. dict_set d k PyNone) acc ks))
            = set (dict_keys acc) \<union> set ks" for acc
      by (induction ks arbitrary: acc) (auto simp: keys_dict_set)
    from this [of "[]"] show "set (dict_keys (foldl (\<lambda>d k. dict_set d k PyNone) [] ks)) = set ks"
      by (simp add: dict_keys_def)
  qed
  from balance_loop_keys [OF d] fk have "set (dict_keys d) = set ?names"
    by simp
  with eq have c: "dict_to_dvec (zoning_system self) (segmentation other) d (PyInfill 0)
                     = (None, d)"
    by (simp add: dict_to_dvec_complete)
  from vs eq have tf: "validate_time_format (segmentation other) (time_format self)
                         = Inr (time_format_attr self)"
    by (intro validate_time_format_of_valid) (simp add: valid_dvec_def)
  let ?r = "\<lparr>zoning_system = zoning_system self, segmentation = segmentation other,
             time_format_attr = time_format_attr self, data_attr = d,
             process_count = set_process_count E (process_count self),
             chunk_divider = chunk_divider_of (set_process_count E (process_count self))\<rparr>"
  from eq d c tf have r: "balance_at_segments E self other False = Inr ?r"
    by (simp add: balance_at_segments_def DVector_init_def)
  have "\<exists>x y x' y' b.
          dict_get ?sd seg = Inr x \<and> dict_get ?od seg = Inr y
          \<and> infill_zeros zero_infill x = Inr x' \<and> infill_zeros zero_infill y = Inr y'
          \<and> dict_get d seg = Inr b
          \<and> (x \<noteq> NpArr [] \<longrightarrow> np_sum b = np_sum y')
          \<and> ((\<forall>e \<in> set (val_entries y). 0 < e) \<longrightarrow> np_sum y' = np_sum y)"
    if m: "seg \<in> set ?names" for seg
  proof -
    from balance_loop_Inr [OF d m] obtain x y x' y' b where
      h: "dict_get ?sd seg = Inr x" "dict_get ?od seg = Inr y"
        "infill_zeros zero_infill x = Inr x'" "infill_zeros zero_infill y = Inr y'"
        "balance_value x' y' = Inr b" "map_of d seg = Some b"
      by blast
    from tot m h(1,2) have nn: "x \<noteq> PyNone" "y \<noteq> PyNone" by auto
    from balance_value_sum [OF nn pos] h(3,4,5)
    have s: "x \<noteq> NpArr [] \<longrightarrow> np_sum b = np_sum y'" by auto
    have p: "(\<forall>e \<in> set (val_entries y). 0 < e) \<longrightarrow> np_sum y' = np_sum y"
      using infill_zeros_positive [OF _ h(4)] by blast
    from h(6) have "dict_get d seg = Inr b" by (simp add: dict_get_def)
    with h s p show ?thesis by blast
  qed
  with r show "\<exists>r. balance_at_segments E self other False = Inr r
         \<and> zoning_system r = zoning_system self \<and> segmentation r = segmentation other
         \<and> time_format_attr r = time_format_attr self
         \<and> (\<forall>seg \<in> set (segment_names (segmentation self)).
               \<exists>x y x' y' b.
                 dict_get (data_attr self) seg = Inr x
                 \<and> dict_get (data_attr other) seg = Inr y
                 \<and> infill_zeros zero_infill x = Inr x'
                 \<and> infill_zeros zero_infill y = Inr y'
                 \<and> dict_get (data_attr r) seg = Inr b
                 \<and> (x \<noteq> NpArr [] \<longrightarrow> np_sum b = np_sum y')
                 \<and> ((\<forall>e \<in> set (val_entries y). 0 < e) \<longrightarrow> np_sum y' = np_sum y))"
    by simp
qed

lemma balance_at_segments_infilled_sums_at_bal_other:
  "valid_dvec bal_self \<and> valid_dvec bal_other
   \<and> segmentation bal_self = segmentation bal_other
   \<and> balance_at_segments world bal_self bal_other False = Inr bal_result
   \<and> infill_zeros zero_infill (NpArr [- 5, 10]) = Inr (NpArr [1 / 10 ^ 10, 10])
   \<and> dict_get (data_attr bal_result) ''A''
       = Inr (NpArr [(10 + 1 / 10 ^ 10) / 2, (10 + 1 / 10 ^ 10) / 2])
   \<and> np_sum (NpArr [(10 + 1 / 10 ^ 10) / 2, (10 + 1 / 10 ^ 10) / 2])
       = np_sum (NpArr [1 / 10 ^ 10, 10])
   \<and> dict_get (data_attr bal_other) ''B'' = Inr (NpArr [3, 3])
   \<and> dict_get (data_attr bal_result) ''B'' = Inr (NpArr [3, 3])
   \<and> segmentation_name (segmentation bal_self) \<noteq> segmentation_name (segmentation bal_other_C)
   \<and> balance_at_segments world bal_self bal_other_C False = Inl ValueError"
proof -
  have h: "valid_dvec bal_self \<and> valid_dvec bal_other
             \<and> segmentation bal_self = segmentation bal_other"
    by (simp add: valid_dvec_def world_defs dict_keys_def)
  have n: "segmentation_name (segmentation bal_self)
             \<noteq> segmentation_name (segmentation bal_other_C)"
    by (simp add: world_defs)
  have e: "balance_at_segments world bal_self bal_other False = Inr bal_result"
    by (simp add: balance_defs world_defs init_defs)
  have v: "infill_zeros zero_infill (NpArr [- 5, 10]) = Inr (NpArr [1 / 10 ^ 10, 10])"
    "dict_get (data_attr bal_result) ''A''
       = Inr (NpArr [(10 + 1 / 10 ^ 10) / 2, (10 + 1 / 10 ^ 10) / 2])"
    "np_sum (NpArr [(10 + 1 / 10 ^ 10) / 2, (10 + 1 / 10 ^ 10) / 2])
       = np_sum (NpArr [1 / 10 ^ 10, 10])"
    "dict_get (data_attr bal_other) ''B'' = Inr (NpArr [3, 3])"
    "dict_get (data_attr bal_result) ''B'' = Inr (NpArr [3, 3])"
    by (simp_all add: zero_infill_def world_defs dict_get_def)
  note b = balance_at_segments_infilled_sums
    [where self = bal_self and other = bal_other and E = world]
  from b h obtain r where "balance_at_segments world bal_self bal_other False = Inr r"
    by blast
  from balance_at_segments_infilled_sums
    [where self = bal_self and other = bal_other_C and E = world
       and split_weekday_weekend = False] n
  have "balance_at_segments world bal_self bal_other_C False = Inl ValueError"
    by blast
  with h n e v show ?thesis by blast
qed

subsection \<open>Aggregation and the total\<close>

lemma dict_set_append:
  "k \<notin> fst ` set pre \<Longrightarrow> dict_set (pre @ (k, u) # post) k v = pre @ (k, v) # post"
  unfolding dict_set_def by (induction pre) auto

lemma length_foldl_add_lists:
  "\<forall>y \<in> set xs. length y = length x \<Longrightarrow> length (foldl add_lists x xs) = length x"
  by (induction xs arbitrary: x) simp_all

lemma sum_list_map2_add:
  fixes a b :: "real list"
  shows "length a = length b \<Longrightarrow> sum_list (map2 (\<lambda>x y. x + y) a b) = sum_list a + sum_list b"
  by (induction a b rule: list_induct2) simp_all

lemma sum_list_foldl_add_lists:
  "\<forall>y \<in> set xs. length y = length x \<Longrightarrow>
     sum_list (foldl add_lists x xs) = sum_list x + sum_list (map sum_list xs)"
proof (induction xs arbitrary: x)
  case Nil
  then show ?case by simp
next
  case (Cons y ys)
  from Cons.prems have l: "length y = length x" by simp
  then have "length (add_lists x y) = length x" by simp
  with Cons.prems have "\<forall>z \<in> set ys. length z = length (add_lists x y)" by simp
  from Cons.IH [OF this] l show ?case
    by (simp add: sum_list_map2_add)
qed

lemma np_sum_axis0_uniform:
  assumes "lst \<noteq> []" "\<forall>y \<in> set lst. length y = n"
  shows "\<exists>s. np_sum_axis0 lst = Inr (NpArr s) \<and> length s = n
           \<and> sum_list s = sum_list (map sum_list lst)"
proof -
  from assms(1) obtain x xs where l: "lst = x # xs" by (cases lst) auto
  with assms(2) have u: "\<forall>y \<in> set xs. length y = length x" "length x = n" by simp_all
  from l u length_foldl_add_lists [OF u(1)] sum_list_foldl_add_lists [OF u(1)]
  show ?thesis by (simp add: np_sum_axis0_def)
qed

lemma np_sum_all_uniform:
  assumes "\<forall>y \<in> set lst. length y = n"
  shows "np_sum_all lst = Inr (sum_list (map sum_list lst))"
  using assms by (cases lst) (simp_all add: np_sum_all_def)

lemma emap_Inr:
  "\<forall>x \<in> set xs. f x = Inr (g x) \<Longrightarrow> emap f xs = Inr (map g xs)"
  by (induction xs) simp_all

lemma emap_Inr_D:
  "emap f xs = Inr ys \<Longrightarrow> length ys = length xs \<and> (\<forall>i < length xs. f (xs ! i) = Inr (ys ! i))"
proof (induction xs arbitrary: ys)
  case Nil
  then show ?case by simp
next
  case (Cons x xs)
  from Cons.prems obtain y ys' where y: "f x = Inr y" "emap f xs = Inr ys'" "ys = y # ys'"
    by (auto split: sum.splits)
  from Cons.IH [OF y(2)] y show ?case
    by (auto simp: nth_Cons split: nat.splits)
qed


lemma uniform_get:
  assumes u: "\<forall>x \<in> snd ` set d. \<exists>xs. flatten x = Inr xs \<and> length xs = n"
    and k: "k \<in> fst ` set d"
  shows "\<exists>x. dict_get d k = Inr x \<and> map_of d k = Some x
           \<and> flatten x = Inr (val_entries x) \<and> length (val_entries x) = n"
proof -
  from k have "map_of d k \<noteq> None" by (simp add: map_of_eq_None_iff)
  then obtain x where x: "map_of d k = Some x" by blast
  then have "(k, x) \<in> set d" by (rule map_of_SomeD)
  then have "x \<in> snd ` set d" by force
  with u obtain xs where "flatten x = Inr xs" "length xs = n" by blast
  then have "flatten x = Inr (val_entries x) \<and> length (val_entries x) = n"
    by (cases x) auto
  with x show ?thesis by (simp add: dict_get_def)
qed

lemma flat_segments_uniform:
  assumes u: "\<forall>x \<in> snd ` set d. \<exists>xs. flatten x = Inr xs \<and> length xs = n"
    and k: "set ins \<subseteq> fst ` set d"
  shows "flat_segments d ins = Inr (map (\<lambda>i. val_entries (the (map_of d i))) ins)"
    and "\<forall>y \<in> set (map (\<lambda>i. val_entries (the (map_of d i))) ins). length y = n"
proof -
  have "\<forall>i \<in> set ins. (case dict_get d i of Inl e \<Rightarrow> Inl e | Inr v \<Rightarrow> flatten v)
          = Inr (val_entries (the (map_of d i)))"
  proof
    fix i assume "i \<in> set ins"
    with k have "i \<in> fst ` set d" by blast
    from uniform_get [OF u this]
    show "(case dict_get d i of Inl e \<Rightarrow> Inl e | Inr v \<Rightarrow> flatten v)
          = Inr (val_entries (the (map_of d i)))" by auto
  qed
  then show "flat_segments d ins = Inr (map (\<lambda>i. val_entries (the (map_of d i))) ins)"
    unfolding flat_segments_def by (rule emap_Inr)
  show "\<forall>y \<in> set (map (\<lambda>i. val_entries (the (map_of d i))) ins). length y = n"
  proof
    fix y assume "y \<in> set (map (\<lambda>i. val_entries (the (map_of d i))) ins)"
    then obtain i where i: "i \<in> set ins" "y = val_entries (the (map_of d i))" by auto
    with k have "i \<in> fst ` set d" by blast
    from uniform_get [OF u this] i(2) show "length y = n" by auto
  qed
qed

lemma aggregate_block:
  assumes u: "\<forall>x \<in> snd ` set d. \<exists>xs. flatten x = Inr xs \<and> length xs = n"
    and k: "set ins \<subseteq> fst ` set d" and ne: "ins \<noteq> []"
  shows "\<exists>s. flat_segments d ins = Inr (map (\<lambda>i. val_entries (the (map_of d i))) ins)
           \<and> np_sum_axis0 (map (\<lambda>i. val_entries (the (map_of d i))) ins) = Inr (NpArr s)
           \<and> length s = n
           \<and> sum_list s = sum_list (map (\<lambda>i. sum_list (val_entries (the (map_of d i)))) ins)"
proof -
  let ?lst = "map (\<lambda>i. val_entries (the (map_of d i))) ins"
  from ne have "?lst \<noteq> []" by simp
  from np_sum_axis0_uniform [OF this flat_segments_uniform(2) [OF u k]]
    flat_segments_uniform(1) [OF u k]
  show ?thesis by (simp add: comp_def)
qed

lemma aggregate_loop_exact:
  assumes u: "\<forall>x \<in> snd ` set d. \<exists>xs. flatten x = Inr xs \<and> length xs = n"
  shows "\<forall>(o', ins) \<in> set agg. ins \<noteq> [] \<and> set ins \<subseteq> fst ` set d \<Longrightarrow>
     distinct (map fst agg) \<Longrightarrow> fst ` set pre \<inter> fst ` set agg = {} \<Longrightarrow>
     aggregate_loop agg d (pre @ map (\<lambda>k. (k, PyNone)) (map fst agg))
       = Inr (pre @ map (\<lambda>(o', ins).
                (o', projr (np_sum_axis0 (map (\<lambda>i. val_entries (the (map_of d i))) ins)))) agg)"
proof (induction agg arbitrary: pre)
  case Nil
  then show ?case by simp
next
  case (Cons a agg)
  obtain o' ins where a: "a = (o', ins)" by (cases a)
  from Cons.prems(1) a have "ins \<noteq> []" "set ins \<subseteq> fst ` set d" by simp_all
  from aggregate_block [OF u this(2,1)] obtain s where
    s: "flat_segments d ins = Inr (map (\<lambda>i. val_entries (the (map_of d i))) ins)"
      "np_sum_axis0 (map (\<lambda>i. val_entries (the (map_of d i))) ins) = Inr (NpArr s)"
    by blast
  from Cons.prems(3) a have n: "o' \<notin> fst ` set pre" by auto
  have i1: "\<forall>(o', ins) \<in> set agg. ins \<noteq> [] \<and> set ins \<subseteq> fst ` set d"
    using Cons.prems(1) by simp
  have i2: "distinct (map fst agg)" using Cons.prems(2) by simp
  have i3: "fst ` set (pre @ [(o', NpArr s)]) \<inter> fst ` set agg = {}"
    using Cons.prems(2,3) a by auto
  from Cons.IH [OF i1 i2 i3] a s n show ?case
    by (simp add: dict_set_append)
qed

lemma map_snd_by_keys:
  "distinct (map fst d) \<Longrightarrow> map (\<lambda>k. f (the (map_of d k))) (map fst d) = map (\<lambda>(k, x). f x) d"
proof (induction d)
  case Nil
  then show ?case by simp
next
  case (Cons a d)
  obtain k x where a: "a = (k, x)" by (cases a)
  from Cons.prems a have "k \<notin> fst ` set d" by simp
  then have "map (\<lambda>j. f (the (map_of ((k, x) # d) j))) (map fst d)
               = map (\<lambda>j. f (the (map_of d j))) (map fst d)"
    by (intro map_cong) auto
  with Cons a show ?case by simp
qed


text \<open>
  Where every value is a numpy value, all of one length, aggregation keeps the total.
  Let the segmentation of \<open>v\<close> define an aggregation into \<open>out\<close> (by
  \<^verbatim>\<open>aggregate\<close>, or by \<^verbatim>\<open>split_tfntt_segmentation\<close> when that variant is
  asked for) whose blocks are not empty and partition the keys of \<open>v\<close>, with one block
  for each segment of \<open>out\<close>, and let \<open>v\<close> have a time format if \<open>out\<close> has time
  periods. Then \<^verbatim>\<open>v.aggregate(out)\<close> returns a vector over \<open>out\<close>,
  \<^verbatim>\<open>sum()\<close> returns for both vectors, and the two totals are equal over exact
  arithmetic.
\<close>

lemma aggregate_preserves_sum:
  assumes agg: "(if split_tfntt_segmentation
                 then seg_split_tfntt E (segmentation v) out
                 else seg_aggregate E (segmentation v) out) = Inr agg"
    and dk: "distinct (dict_keys (data_attr v))"
    and part: "distinct (concat (map snd agg))"
      "set (concat (map snd agg)) = set (dict_keys (data_attr v))"
      "\<forall>(o', ins) \<in> set agg. ins \<noteq> []"
    and outk: "distinct (map fst agg)" "set (map fst agg) = set (segment_names out)"
    and u: "\<forall>x \<in> snd ` set (data_attr v). \<exists>xs. flatten x = Inr xs \<and> length xs = n"
    and tf: "has_time_period_segments out \<longrightarrow> time_format_attr v \<noteq> None"
  shows "\<exists>r t. aggregate E v out split_tfntt_segmentation = Inr r
           \<and> dvec_sum v = Inr t \<and> dvec_sum r = Inr t
           \<and> segmentation r = out \<and> zoning_system r = zoning_system v
           \<and> time_format_attr r = time_format_attr v"
proof -
  let ?d = "data_attr v"
  let ?fl = "\<lambda>i. val_entries (the (map_of ?d i))"
  let ?g = "\<lambda>i. sum_list (?fl i)"
  let ?B = "\<lambda>ins. projr (np_sum_axis0 (map ?fl ins))"
  let ?R = "map (\<lambda>a. (fst a, ?B (snd a))) agg"
  have sub: "\<forall>(o', ins) \<in> set agg. ins \<noteq> [] \<and> set ins \<subseteq> fst ` set ?d"
  proof (clarify, intro conjI)
    fix o' ins assume m: "(o', ins) \<in> set agg"
    with part(3) show "ins \<noteq> []" by auto
    from m have "set ins \<subseteq> set (concat (map snd agg))" by force
    with part(2) show "set ins \<subseteq> fst ` set ?d" by (simp add: dict_keys_def)
  qed
  have blk: "\<exists>s. ?B (snd a) = NpArr s \<and> length s = n \<and> sum_list s = sum_list (map ?g (snd a))"
    if "a \<in> set agg" for a
  proof -
    obtain o' ins where a: "a = (o', ins)" by (cases a)
    with sub that have "set (snd a) \<subseteq> fst ` set ?d" "snd a \<noteq> []" by fastforce+
    from aggregate_block [OF u this] show ?thesis by auto
  qed
  have fk: "fromkeys (dict_keys agg) = map (\<lambda>k. (k, PyNone)) (map fst agg)"
    using outk(1) by (simp add: fromkeys_distinct dict_keys_def)
  from aggregate_loop_exact [OF u sub outk(1), of "[]"] fk
  have loop: "aggregate_loop agg ?d (fromkeys (dict_keys agg)) = Inr ?R"
    by (simp add: case_prod_unfold)
  have kR: "dict_keys ?R = map fst agg"
    by (simp add: dict_keys_def comp_def)
  with outk(2) have c: "dict_to_dvec (zoning_system v) out ?R (PyInfill 0) = (None, ?R)"
    by (intro dict_to_dvec_complete) simp
  from tf have vt: "validate_time_format out (time_format v) = Inr (time_format_attr v)"
    by (rule validate_time_format_of_valid)
  let ?r = "\<lparr>zoning_system = zoning_system v, segmentation = out,
             time_format_attr = time_format_attr v, data_attr = ?R,
             process_count = set_process_count E (process_count v),
             chunk_divider = chunk_divider_of (set_process_count E (process_count v))\<rparr>"
  from agg loop c vt have r: "aggregate E v out split_tfntt_segmentation = Inr ?r"
    by (simp add: aggregate_def DVector_init_def)
  \<comment> \<open>the total of the aggregated vector\<close>
  have m1: "map snd ?R = map (\<lambda>a. ?B (snd a)) agg"
    by (simp add: comp_def)
  have fR: "\<forall>x \<in> set (map snd ?R). flatten x = Inr (val_entries x)"
  proof
    fix x assume "x \<in> set (map snd ?R)"
    with m1 obtain a where "a \<in> set agg" "x = ?B (snd a)" by auto
    with blk [of a] show "flatten x = Inr (val_entries x)" by auto
  qed
  have lR: "\<forall>y \<in> set (map val_entries (map snd ?R)). length y = n"
  proof
    fix y assume "y \<in> set (map val_entries (map snd ?R))"
    with m1 obtain a where "a \<in> set agg" "y = val_entries (?B (snd a))" by auto
    with blk [of a] show "length y = n" by auto
  qed
  have me: "map (\<lambda>a. sum_list (val_entries (?B (snd a)))) agg
          = map (\<lambda>a. sum_list (map ?g (snd a))) agg"
  proof (rule map_cong [OF refl])
    fix a assume "a \<in> set agg"
    from blk [OF this]
    show "sum_list (val_entries (?B (snd a))) = sum_list (map ?g (snd a))" by auto
  qed
  have "sum_list (map sum_list (map val_entries (map snd ?R)))
               = sum_list (map (\<lambda>a. sum_list (val_entries (?B (snd a)))) agg)"
    by (simp add: comp_def)
  also have "\<dots> = sum_list (map (\<lambda>a. sum_list (map ?g (snd a))) agg)"
    by (simp only: me)
  also have "\<dots> = sum_list (map ?g (concat (map snd agg)))"
    by (induction agg) simp_all
  finally have tR: "sum_list (map sum_list (map val_entries (map snd ?R)))
                      = sum_list (map ?g (concat (map snd agg)))" .
  from emap_Inr [OF fR] np_sum_all_uniform [OF lR] tR
  have sr: "dvec_sum ?r = Inr (sum_list (map ?g (concat (map snd agg))))"
    by (simp add: dvec_sum_def)
  \<comment> \<open>the total of the vector itself\<close>
  have fv: "\<forall>x \<in> set (map snd ?d). flatten x = Inr (val_entries x)"
  proof
    fix x assume "x \<in> set (map snd ?d)"
    then have "x \<in> snd ` set ?d" by simp
    with u obtain xs where "flatten x = Inr xs" by blast
    then show "flatten x = Inr (val_entries x)" by (cases x) auto
  qed
  have lv: "\<forall>y \<in> set (map val_entries (map snd ?d)). length y = n"
  proof
    fix y assume "y \<in> set (map val_entries (map snd ?d))"
    then obtain x where x: "x \<in> snd ` set ?d" "y = val_entries x" by auto
    with u obtain xs where "flatten x = Inr xs" "length xs = n" by blast
    with x(2) show "length y = n" by (cases x) auto
  qed
  from dk have dd: "distinct (map fst ?d)" by (simp add: dict_keys_def)
  have e1: "map sum_list (map val_entries (map snd ?d))
              = map (\<lambda>(k, x). sum_list (val_entries x)) ?d"
    by (simp add: case_prod_unfold comp_def)
  have e2: "map (\<lambda>(k, x). sum_list (val_entries x)) ?d = map ?g (map fst ?d)"
    by (rule map_snd_by_keys [OF dd, symmetric])
  have "sum_list (map sum_list (map val_entries (map snd ?d)))
                  = sum_list (map ?g (map fst ?d))"
    by (simp only: e1 e2)
  also have "\<dots> = sum ?g (set (map fst ?d))"
    using dd by (rule sum_list_distinct_conv_sum_set)
  also have "\<dots> = sum ?g (set (concat (map snd agg)))"
    using part(2) by (simp add: dict_keys_def)
  also have "\<dots> = sum_list (map ?g (concat (map snd agg)))"
    using part(1) by (rule sum_list_distinct_conv_sum_set [symmetric])
  finally have tv: "sum_list (map sum_list (map val_entries (map snd ?d)))
                      = sum_list (map ?g (concat (map snd agg)))" .
  from emap_Inr [OF fv] np_sum_all_uniform [OF lv] tv
  have sv: "dvec_sum v = Inr (sum_list (map ?g (concat (map snd agg))))"
    by (simp add: dvec_sum_def)
  from r sr sv show ?thesis by (intro exI [of _ ?r]) simp
qed


lemma aggregate_preserves_sum_at_vec_V:
  "seg_aggregate world (segmentation vec_V) seg_C = Inr [(''C'', [''A'', ''B''])]
   \<and> set (concat (map snd [(''C'', [''A'', ''B''])])) = set (dict_keys (data_attr vec_V))
   \<and> set (map fst [(''C'', [''A'', ''B''])]) = set (segment_names seg_C)
   \<and> aggregate world vec_V seg_C False = Inr vec_C
   \<and> dvec_sum vec_V = Inr 35 \<and> dvec_sum vec_C = Inr 35"
proof -
  have a: "(if False then seg_split_tfntt world (segmentation vec_V) seg_C
            else seg_aggregate world (segmentation vec_V) seg_C) = Inr [(''C'', [''A'', ''B''])]"
    by (simp add: world_defs)
  have h: "distinct (dict_keys (data_attr vec_V))"
    "distinct (concat (map snd [(''C'', [''A'', ''B''])]))"
    "set (concat (map snd [(''C'', [''A'', ''B''])])) = set (dict_keys (data_attr vec_V))"
    "\<forall>(o', ins) \<in> set [(''C'', [''A'', ''B''])]. ins \<noteq> []"
    "distinct (map fst [(''C'', [''A'', ''B''])])"
    "set (map fst [(''C'', [''A'', ''B''])]) = set (segment_names seg_C)"
    "\<forall>x \<in> snd ` set (data_attr vec_V). \<exists>xs. flatten x = Inr xs \<and> length xs = 3"
    "has_time_period_segments seg_C \<longrightarrow> time_format_attr vec_V \<noteq> None"
    by (simp_all add: world_defs dict_keys_def)
  have e: "aggregate world vec_V seg_C False = Inr vec_C"
    by (simp add: aggregate_def flat_segments_def np_sum_axis0_def world_defs init_defs)
  have t: "dvec_sum vec_V = Inr 35" "dvec_sum vec_C = Inr 35"
    by (simp_all add: world_defs sum_defs)
  from aggregate_preserves_sum [OF a h] obtain r t' where
    "aggregate world vec_V seg_C False = Inr r" "dvec_sum vec_V = Inr t'" "dvec_sum r = Inr t'"
    by blast
  with a h e t show ?thesis by simp
qed

text \<open>
  C2. Aggregation does not keep the total of every vector: for some it returns
  nothing. A vector without a zoning system whose values are Python numbers is what
  the constructor builds from a table (there the values come from
  \<^verbatim>\<open>to_list()\<close>), and it is what the constructor returns for a complete
  dictionary of such numbers. The vector of rates below is of that kind: its keys are
  the segment names, each once, its segmentation has no time periods, and its
  segmentation defines the aggregation of A and B into C, which
  partitions its keys. Yet \<^verbatim>\<open>aggregate\<close> raises \<^verbatim>\<open>AttributeError\<close>, and
  so does \<^verbatim>\<open>sum()\<close> on the vector itself: both call \<^verbatim>\<open>flatten()\<close> on
  every value, and a Python number has no such method. So neither total exists, where
  \<^verbatim>\<open>sum()\<close> is documented to return the total of all values and
  \<^verbatim>\<open>aggregate\<close> to return the aggregated vector.
\<close>

theorem aggregate_python_numbers_fail:
  "DVector_init world None seg_AB [(''A'', PyNum (1 / 2)), (''B'', PyNum 2)] TfNone
       (PyInfill 0) 0 = Inr vec_rate
   \<and> zoning_system vec_rate = None
   \<and> dict_keys (data_attr vec_rate) = segment_names (segmentation vec_rate)
   \<and> distinct (dict_keys (data_attr vec_rate))
   \<and> \<not> has_time_period_segments (segmentation vec_rate)
   \<and> data_attr vec_rate = [(''A'', PyNum (1 / 2)), (''B'', PyNum 2)]
   \<and> seg_aggregate world (segmentation vec_rate) seg_C = Inr [(''C'', [''A'', ''B''])]
   \<and> set (concat (map snd [(''C'', [''A'', ''B''])])) = set (dict_keys (data_attr vec_rate))
   \<and> aggregate world vec_rate seg_C False = Inl AttributeError
   \<and> dvec_sum vec_rate = Inl AttributeError"
  by (simp add: aggregate_def flat_segments_def dict_keys_def
        world_defs init_defs sum_defs)

subsection \<open>Chunks and their merge\<close>

lemma concat_chunks: "0 < n \<Longrightarrow> concat (chunks n xs) = xs"
proof (induction n xs rule: chunks.induct)
  case (1 n xs)
  show ?case
  proof (cases "xs = []")
    case True
    then show ?thesis by (subst chunks.simps) simp
  next
    case False
    with 1 have "concat (chunks n (drop n xs)) = drop n xs" by simp
    with False 1(2) show ?thesis by (subst chunks.simps) simp
  qed
qed

lemma chunks_elem:
  "c \<in> set (chunks n xs) \<Longrightarrow> set c \<subseteq> set xs \<and> (distinct xs \<longrightarrow> distinct c)"
proof (induction n xs rule: chunks.induct)
  case (1 n xs)
  show ?case
  proof (cases "n = 0 \<or> xs = []")
    case True
    with 1(2) show ?thesis by (subst (asm) chunks.simps) simp
  next
    case False
    from 1(2) have "c \<in> set (take n xs # chunks n (drop n xs))"
      using False by (subst (asm) chunks.simps) simp
    then consider "c = take n xs" | "c \<in> set (chunks n (drop n xs))" by auto
    then show ?thesis
    proof cases
      case 1
      then show ?thesis by (auto dest: in_set_takeD)
    next
      case 2
      from "1.IH" [OF False 2] show ?thesis
        by (auto dest: in_set_dropD)
    qed
  qed
qed

lemma foldl_dict_set_fresh:
  "distinct (map fst kvs) \<Longrightarrow> fst ` set kvs \<inter> fst ` set acc = {} \<Longrightarrow>
     foldl (\<lambda>acc (k, v). dict_set acc k v) acc kvs = acc @ kvs"
proof (induction kvs arbitrary: acc)
  case Nil
  then show ?case by simp
next
  case (Cons a kvs)
  obtain k v where a: "a = (k, v)" by (cases a)
  from Cons.prems a have n: "k \<notin> set (dict_keys acc)" by (auto simp: dict_keys_def)
  from Cons.prems a have "fst ` set kvs \<inter> fst ` set (acc @ [(k, v)]) = {}" by auto
  with Cons.IH [of "acc @ [(k, v)]"] Cons.prems a n show ?case
    by (simp add: dict_set_new)
qed

lemma subdict_distinct:
  assumes "distinct ks" "set ks \<subseteq> fst ` set d"
  shows "subdict d ks = Inr (map (\<lambda>k. (k, the (map_of d k))) ks)"
proof -
  have "\<forall>k \<in> set ks. (case dict_get d k of Inl e \<Rightarrow> Inl e | Inr v \<Rightarrow> Inr (k, v))
          = Inr (k, the (map_of d k))"
  proof
    fix k assume "k \<in> set ks"
    with assms(2) have "map_of d k \<noteq> None" by (auto simp: map_of_eq_None_iff)
    then show "(case dict_get d k of Inl e \<Rightarrow> Inl e | Inr v \<Rightarrow> Inr (k, v))
          = Inr (k, the (map_of d k))"
      by (auto simp: dict_get_def)
  qed
  from emap_Inr [OF this] foldl_dict_set_fresh [of "map (\<lambda>k. (k, the (map_of d k))) ks" "[]"]
    assms(1)
  show ?thesis by (simp add: subdict_def dict_update_def comp_def)
qed

lemma dict_update_in_place:
  "distinct c \<Longrightarrow> set c \<inter> fst ` set pre = {} \<Longrightarrow>
     dict_update (pre @ map (\<lambda>k. (k, PyNone)) c @ post) (map (\<lambda>k. (k, g k)) c)
       = pre @ map (\<lambda>k. (k, g k)) c @ post"
proof (induction c arbitrary: pre)
  case Nil
  then show ?case by (simp add: dict_update_def)
next
  case (Cons k c)
  from Cons.prems have n: "k \<notin> fst ` set pre" by auto
  from Cons.prems have "set c \<inter> fst ` set (pre @ [(k, g k)]) = {}" by auto
  from Cons.IH [OF _ this] Cons.prems(1) n show ?case
    by (simp add: dict_update_def dict_set_append)
qed

lemma merge_chunks_in_place:
  "0 < n \<Longrightarrow> distinct ks \<Longrightarrow> set ks \<inter> fst ` set pre = {} \<Longrightarrow>
     foldl dict_update (pre @ map (\<lambda>k. (k, PyNone)) ks)
         (map (\<lambda>c. map (\<lambda>k. (k, g k)) c) (chunks n ks))
       = pre @ map (\<lambda>k. (k, g k)) ks"
proof (induction n ks arbitrary: pre rule: chunks.induct)
  case (1 n xs)
  show ?case
  proof (cases "xs = []")
    case True
    then show ?thesis by (subst chunks.simps) simp
  next
    case False
    let ?c = "take n xs" and ?rest = "drop n xs"
    have split: "xs = ?c @ ?rest" by simp
    from "1.prems"(2) have dc: "distinct ?c" "distinct ?rest" by simp_all
    from "1.prems"(3) have disj: "set ?c \<inter> fst ` set pre = {}"
      by (auto dest: in_set_takeD)
    have upd: "dict_update (pre @ map (\<lambda>k. (k, PyNone)) ?c @ map (\<lambda>k. (k, PyNone)) ?rest)
                 (map (\<lambda>k. (k, g k)) ?c)
               = pre @ map (\<lambda>k. (k, g k)) ?c @ map (\<lambda>k. (k, PyNone)) ?rest"
      by (rule dict_update_in_place [OF dc(1) disj])
    have "set ?rest \<inter> set ?c = {}"
      using "1.prems"(2) by (metis append_take_drop_id distinct_append inf_commute)
    with "1.prems"(3) have disj2: "set ?rest \<inter> fst ` set (pre @ map (\<lambda>k. (k, g k)) ?c) = {}"
      by (auto simp: image_Un image_image dest: in_set_dropD)
    from False "1.prems"(1) have nf: "\<not> (n = 0 \<or> xs = [])" by simp
    from "1.IH" [OF nf "1.prems"(1) dc(2) disj2]
    have ih: "foldl dict_update ((pre @ map (\<lambda>k. (k, g k)) ?c) @ map (\<lambda>k. (k, PyNone)) ?rest)
                (map (\<lambda>c. map (\<lambda>k. (k, g k)) c) (chunks n ?rest))
              = (pre @ map (\<lambda>k. (k, g k)) ?c) @ map (\<lambda>k. (k, g k)) ?rest" .
    have m: "map (\<lambda>k. (k, PyNone)) xs
               = map (\<lambda>k. (k, PyNone)) ?c @ map (\<lambda>k. (k, PyNone)) ?rest"
      by (metis append_take_drop_id map_append)
    have m': "map (\<lambda>k. (k, g k)) xs = map (\<lambda>k. (k, g k)) ?c @ map (\<lambda>k. (k, g k)) ?rest"
      by (metis append_take_drop_id map_append)
    have "foldl dict_update (pre @ map (\<lambda>k. (k, PyNone)) xs)
            (map (\<lambda>c. map (\<lambda>k. (k, g k)) c) (chunks n xs))
          = foldl dict_update
              (dict_update (pre @ map (\<lambda>k. (k, PyNone)) ?c @ map (\<lambda>k. (k, PyNone)) ?rest)
                 (map (\<lambda>k. (k, g k)) ?c))
              (map (\<lambda>c. map (\<lambda>k. (k, g k)) c) (chunks n ?rest))"
      using nf by (subst chunks.simps) (simp add: m)
    also have "\<dots> = pre @ map (\<lambda>k. (k, g k)) xs"
      using ih by (simp add: upd m')
    finally show ?thesis .
  qed
qed

subsection \<open>Zone translation is a matrix product\<close>

lemma translate_value_arr:
  "length xs = n_rows T \<Longrightarrow>
     translate_value T (NpArr xs)
       = Inr (NpArr (sum_axis0 (n_cols T)
                (map2 (\<lambda>x row. map (\<lambda>t. x * t) row) xs (entries T))))"
  by (simp add: translate_value_def)

lemma sum_axis0_formula:
  assumes l: "length rows = length xs" and m: "\<forall>row \<in> set rows. length row = m"
  shows "sum_axis0 m (map2 (\<lambda>x row. map (\<lambda>t. x * t) row) xs rows)
           = map (\<lambda>j. \<Sum>i<length xs. xs ! i * rows ! i ! j) [0..<m]"
proof -
  have "sum_list (map (\<lambda>row. row ! j) (map2 (\<lambda>x row. map (\<lambda>t. x * t) row) xs rows))
          = (\<Sum>i<length xs. xs ! i * rows ! i ! j)" if j: "j < m" for j
  proof -
    let ?l = "map (\<lambda>row. row ! j) (map2 (\<lambda>x row. map (\<lambda>t. x * t) row) xs rows)"
    have len: "length ?l = length xs" using l by simp
    have nth: "?l ! i = xs ! i * rows ! i ! j" if "i < length xs" for i
    proof -
      from that l have "rows ! i \<in> set rows" by simp
      with m j have "j < length (rows ! i)" by simp
      with that l show ?thesis by simp
    qed
    have "sum_list ?l = (\<Sum>i = 0..<length ?l. ?l ! i)" by (rule sum_list_sum_nth)
    also have "\<dots> = (\<Sum>i = 0..<length xs. xs ! i * rows ! i ! j)"
      unfolding len
    proof (rule sum.cong [OF refl])
      fix i assume "i \<in> {0..<length xs}"
      then have "i < length xs" by simp
      then show "?l ! i = xs ! i * rows ! i ! j" by (rule nth)
    qed
    finally show ?thesis by (simp add: atLeast0LessThan)
  qed
  then show ?thesis by (simp add: sum_axis0_def)
qed

lemma translate_loop_exact:
  "\<forall>k \<in> set ks. \<exists>t. translate_value T (f k) = Inr t \<Longrightarrow> distinct ks \<Longrightarrow>
   set ks \<inter> fst ` set pre = {} \<Longrightarrow>
     translate_loop (map (\<lambda>k. (k, f k)) ks) T (pre @ map (\<lambda>k. (k, PyNone)) ks)
       = Inr (pre @ map (\<lambda>k. (k, projr (translate_value T (f k)))) ks)"
proof (induction ks arbitrary: pre)
  case Nil
  then show ?case by simp
next
  case (Cons k ks)
  from Cons.prems(1) obtain t where t: "translate_value T (f k) = Inr t" by auto
  from Cons.prems(3) have n: "k \<notin> fst ` set pre" by auto
  from Cons.prems have "set ks \<inter> fst ` set (pre @ [(k, t)]) = {}" by auto
  from Cons.IH [OF _ _ this] Cons.prems(1,2) t n show ?case
    by (simp add: dict_set_append)
qed


lemma map_of_tabulate: "k \<in> set ks \<Longrightarrow> map_of (map (\<lambda>k. (k, g k)) ks) k = Some (g k)"
  by (induction ks) auto

text \<open>
  C8. Let \<open>v\<close> be a vector that satisfies the invariant, with a zoning system for
  which \<^verbatim>\<open>translate(new_zoning, weighting)\<close> answers the matrix \<open>T\<close>, and whose
  values are arrays with one entry per row of \<open>T\<close>. Then \<^verbatim>\<open>translate_zoning\<close>
  returns a vector on \<open>new_zoning\<close> with the segmentation, the time format and the
  keys of \<open>v\<close>, in which the array of every segment has, at each column \<open>j\<close> of
  \<open>T\<close>, the sum over the rows \<open>i\<close> of \<open>old[i] * T[i][j]\<close>.
\<close>

theorem translate_zoning_matrix_product:
  assumes z: "zoning_system v = Some z"
    and T: "zoning_translate E z new_zoning weighting = Inr T"
    and wfT: "length (entries T) = n_rows T" "\<forall>row \<in> set (entries T). length row = n_cols T"
    and v: "valid_dvec v"
    and arr: "\<forall>x \<in> snd ` set (data_attr v). \<exists>xs. x = NpArr xs \<and> length xs = n_rows T"
    and cd: "chunk_divider v \<noteq> 0"
  shows "\<exists>r. translate_zoning E v new_zoning weighting = Inr r
           \<and> zoning_system r = Some new_zoning \<and> segmentation r = segmentation v
           \<and> time_format_attr r = time_format_attr v
           \<and> dict_keys (data_attr r) = dict_keys (data_attr v)
           \<and> (\<forall>seg xs. dict_get (data_attr v) seg = Inr (NpArr xs) \<longrightarrow>
                 dict_get (data_attr r) seg
                   = Inr (NpArr (map (\<lambda>j. \<Sum>i<n_rows T. xs ! i * entries T ! i ! j)
                                   [0..<n_cols T])))"
proof -
  let ?d = "data_attr v"
  let ?ks = "dict_keys ?d"
  let ?f = "\<lambda>k. the (map_of ?d k)"
  let ?tv = "\<lambda>k. projr (translate_value T (?f k))"
  let ?R = "map (\<lambda>k. (k, ?tv k)) ?ks"
  from v have dist: "distinct ?ks"
    and keys: "set ?ks = set (segment_names (segmentation v))"
    and tfv: "has_time_period_segments (segmentation v) \<longrightarrow> time_format_attr v \<noteq> None"
    by (simp_all add: valid_dvec_def)
  \<comment> \<open>every value translates\<close>
  have val: "\<exists>xs. ?f k = NpArr xs \<and> length xs = n_rows T
               \<and> map_of ?d k = Some (NpArr xs)" if "k \<in> set ?ks" for k
  proof -
    from that have "map_of ?d k \<noteq> None" by (simp add: dict_keys_def map_of_eq_None_iff)
    then obtain x where x: "map_of ?d k = Some x" by blast
    then have "x \<in> snd ` set ?d" by (force dest: map_of_SomeD)
    with arr x show ?thesis by auto
  qed
  have tvk: "translate_value T (?f k) = Inr (?tv k)" if "k \<in> set ?ks" for k
    using val [OF that] by (auto simp: translate_value_arr)
  \<comment> \<open>the size of the chunks\<close>
  obtain cs where cs: "ceil_div (length ?d) (chunk_divider v) = Inr cs"
    using cd by (simp add: ceil_div_def)
  define chunk_size where
    "chunk_size = (if cs < translate_zoning_min_chunk_size
                   then translate_zoning_min_chunk_size else cs)"
  have pos: "0 < chunk_size"
    by (simp add: chunk_size_def translate_zoning_min_chunk_size_def)
  define n where "n = nat chunk_size"
  from pos have n: "0 < n" by (simp add: n_def)
  from pos have cl: "chunk_list ?ks chunk_size = Inr (chunks n ?ks)"
    by (simp add: chunk_list_def n_def)
  \<comment> \<open>the arguments of the workers\<close>
  let ?kw = "\<lambda>c. (map (\<lambda>k. (k, ?f k)) c, T)"
  have "\<forall>c \<in> set (chunks n ?ks).
          (case subdict ?d c of Inl e \<Rightarrow> Inl e
           | Inr self_data_subset \<Rightarrow> Inr (self_data_subset, T)) = Inr (?kw c)"
  proof
    fix c assume "c \<in> set (chunks n ?ks)"
    from chunks_elem [OF this] dist have "distinct c" "set c \<subseteq> fst ` set ?d"
      by (auto simp: dict_keys_def)
    from subdict_distinct [OF this]
    show "(case subdict ?d c of Inl e \<Rightarrow> Inl e
           | Inr self_data_subset \<Rightarrow> Inr (self_data_subset, T)) = Inr (?kw c)"
      by simp
  qed
  from emap_Inr [OF this]
  have kwl: "emap (\<lambda>keys_chunk. case subdict ?d keys_chunk of Inl e \<Rightarrow> Inl e
                    | Inr self_data_subset \<Rightarrow> Inr (self_data_subset, T)) (chunks n ?ks)
               = Inr (map ?kw (chunks n ?ks))" .
  \<comment> \<open>the workers\<close>
  let ?G = "\<lambda>kw. map (\<lambda>k. (k, ?tv k)) (map fst (fst kw))"
  have "\<forall>kw \<in> set (map ?kw (chunks n ?ks)). translate_zoning_internal kw = Inr (?G kw)"
  proof
    fix kw assume "kw \<in> set (map ?kw (chunks n ?ks))"
    then obtain c where c: "c \<in> set (chunks n ?ks)" "kw = ?kw c" by auto
    from chunks_elem [OF c(1)] dist have dc: "distinct c" and sc: "set c \<subseteq> set ?ks"
      by auto
    have kc: "dict_keys (map (\<lambda>k. (k, ?f k)) c) = c"
      by (simp add: dict_keys_def comp_def)
    from sc tvk have ex: "\<forall>k \<in> set c. \<exists>t. translate_value T (?f k) = Inr t" by blast
    from translate_loop_exact [OF ex dc, of "[]"] dc
    have "translate_loop (map (\<lambda>k. (k, ?f k)) c) T (fromkeys c)
            = Inr (map (\<lambda>k. (k, ?tv k)) c)"
      by (simp add: fromkeys_distinct)
    with c(2) kc show "translate_zoning_internal kw = Inr (?G kw)"
      by (simp add: translate_zoning_internal_def comp_def)
  qed
  from emap_Inr [OF this]
  have "multiprocess translate_zoning_internal (map ?kw (chunks n ?ks))
          = Inr (map ?G (map ?kw (chunks n ?ks)))"
    by (simp add: multiprocess_def)
  moreover have "map ?G (map ?kw (chunks n ?ks))
                   = map (\<lambda>c. map (\<lambda>k. (k, ?tv k)) c) (chunks n ?ks)"
    by (simp add: comp_def)
  ultimately have mp: "multiprocess translate_zoning_internal (map ?kw (chunks n ?ks))
          = Inr (map (\<lambda>c. map (\<lambda>k. (k, ?tv k)) c) (chunks n ?ks))"
    by simp
  \<comment> \<open>the merge\<close>
  from merge_chunks_in_place [OF n dist, of "[]" ?tv] dist
  have mg: "merge_chunks ?ks (map (\<lambda>c. map (\<lambda>k. (k, ?tv k)) c) (chunks n ?ks)) = ?R"
    by (simp add: merge_chunks_def fromkeys_distinct)
  \<comment> \<open>the construction\<close>
  have kR: "dict_keys ?R = ?ks" by (simp add: dict_keys_def comp_def)
  with keys have c: "dict_to_dvec (Some new_zoning) (segmentation v) ?R (PyInfill 0)
                       = (None, ?R)"
    by (intro dict_to_dvec_complete) simp
  from tfv have vt: "validate_time_format (segmentation v) (time_format v)
                       = Inr (time_format_attr v)"
    by (rule validate_time_format_of_valid)
  let ?r = "\<lparr>zoning_system = Some new_zoning, segmentation = segmentation v,
             time_format_attr = time_format_attr v, data_attr = ?R,
             process_count = set_process_count E (process_count v),
             chunk_divider = chunk_divider_of (set_process_count E (process_count v))\<rparr>"
  have r: "translate_zoning E v new_zoning weighting = Inr ?r"
    using z T cs cl kwl mp mg c vt
    by (simp add: translate_zoning_def chunk_size_def [symmetric] DVector_init_def Let_def)
  \<comment> \<open>the values\<close>
  have "dict_get ?R seg
          = Inr (NpArr (map (\<lambda>j. \<Sum>i<n_rows T. xs ! i * entries T ! i ! j) [0..<n_cols T]))"
    if g: "dict_get ?d seg = Inr (NpArr xs)" for seg xs
  proof -
    from g have mo: "map_of ?d seg = Some (NpArr xs)"
      by (auto simp: dict_get_def split: option.splits)
    then have m: "seg \<in> set ?ks"
      by (auto simp: dict_keys_def dest!: map_of_SomeD intro: rev_image_eqI)
    from val [OF m] mo have l: "length xs = n_rows T" by simp
    from mo l have "?tv seg = NpArr (sum_axis0 (n_cols T)
                      (map2 (\<lambda>x row. map (\<lambda>t. x * t) row) xs (entries T)))"
      by (simp add: translate_value_arr)
    also have "sum_axis0 (n_cols T) (map2 (\<lambda>x row. map (\<lambda>t. x * t) row) xs (entries T))
                 = map (\<lambda>j. \<Sum>i<length xs. xs ! i * entries T ! i ! j) [0..<n_cols T]"
      using wfT l by (intro sum_axis0_formula) simp_all
    finally have "?tv seg
        = NpArr (map (\<lambda>j. \<Sum>i<n_rows T. xs ! i * entries T ! i ! j) [0..<n_cols T])"
      using l by simp
    with map_of_tabulate [OF m, of ?tv] show ?thesis
      by (simp add: dict_get_def)
  qed
  with r kR show ?thesis by (intro exI [of _ ?r]) simp
qed


lemmas translate_defs = translate_zoning_def translate_zoning_internal_def translate_value_def
  translate_zoning_min_chunk_size_def sum_axis0_def ceil_div_def chunk_list_def subdict_def
  dict_update_def merge_chunks_def multiprocess_def

lemma chunks_small:
  assumes "length xs \<le> n" "xs \<noteq> []"
  shows "chunks n xs = [xs]"
proof -
  from assms have n: "0 < n" by (cases xs) auto
  have "chunks n xs = take n xs # chunks n (drop n xs)"
    using assms n by (subst chunks.simps) simp
  also have "chunks n (drop n xs) = []"
    using assms by (subst chunks.simps) simp
  finally show ?thesis using assms by simp
qed

theorem translate_zoning_matrix_product_witness:
  "zoning_system vec_V = Some zoning_Z
   \<and> zoning_translate world zoning_Z zoning_W None = Inr translation_ZW
   \<and> valid_dvec vec_V
   \<and> translate_zoning world vec_V zoning_W None = Inr vec_V_on_W
   \<and> dict_get (data_attr vec_V) ''A'' = Inr (NpArr [10, 20, 0])
   \<and> dict_get (data_attr vec_V_on_W) ''A'' = Inr (NpArr [20, 10])"
proof -
  have h: "zoning_system vec_V = Some zoning_Z"
    "zoning_translate world zoning_Z zoning_W None = Inr translation_ZW"
    "length (entries translation_ZW) = n_rows translation_ZW"
    "\<forall>row \<in> set (entries translation_ZW). length row = n_cols translation_ZW"
    "valid_dvec vec_V"
    "\<forall>x \<in> snd ` set (data_attr vec_V). \<exists>xs. x = NpArr xs \<and> length xs = n_rows translation_ZW"
    "chunk_divider vec_V \<noteq> 0"
    by (simp_all add: world_defs valid_dvec_def dict_keys_def)
  have g: "dict_get (data_attr vec_V) ''A'' = Inr (NpArr [10, 20, 0])"
    "dict_get (data_attr vec_V_on_W) ''A'' = Inr (NpArr [20, 10])"
    by (simp_all add: world_defs dict_get_def)
  from translate_zoning_matrix_product [OF h] obtain r where
    r: "translate_zoning world vec_V zoning_W None = Inr r"
      "zoning_system r = Some zoning_W"
    by blast
  have e: "translate_zoning world vec_V zoning_W None = Inr vec_V_on_W"
    by (simp add: translate_defs world_defs init_defs chunks_small eval_nat_numeral)
  with h g show ?thesis by simp
qed

subsection \<open>Multiply and aggregate against multiply, then aggregate\<close>

lemma dict_update_Cons:
  "dict_update acc ((k, v) # kvs) = dict_update (dict_set acc k v) kvs"
  by (simp add: dict_update_def)

lemma map_of_dict_update_tab:
  "map_of (dict_update acc (map (\<lambda>k. (k, f k)) ks)) k
     = (if k \<in> set ks then Some (f k) else map_of acc k)"
  by (induction ks arbitrary: acc) (auto simp: dict_update_Cons map_of_dict_set dict_update_def)

lemma distinct_dict_update:
  "distinct (map fst acc) \<Longrightarrow> distinct (map fst (dict_update acc kvs))"
proof (induction kvs arbitrary: acc)
  case Nil
  then show ?case by (simp add: dict_update_def)
next
  case (Cons a kvs)
  obtain k v where a: "a = (k, v)" by (cases a)
  from Cons.prems have "distinct (map fst (dict_set acc k v))"
    by (simp add: dict_set_def distinct_update)
  from Cons.IH [OF this] a show ?case by (simp add: dict_update_Cons)
qed

lemma subdict_tab:
  assumes "set ks \<subseteq> fst ` set d"
  shows "\<exists>s. subdict d ks = Inr s \<and> distinct (map fst s)
           \<and> (\<forall>k. map_of s k = (if k \<in> set ks then map_of d k else None))"
proof -
  have "\<forall>k \<in> set ks. (case dict_get d k of Inl e \<Rightarrow> Inl e | Inr v \<Rightarrow> Inr (k, v))
          = Inr (k, the (map_of d k))"
  proof
    fix k assume "k \<in> set ks"
    with assms have "map_of d k \<noteq> None" by (auto simp: map_of_eq_None_iff)
    then show "(case dict_get d k of Inl e \<Rightarrow> Inl e | Inr v \<Rightarrow> Inr (k, v))
          = Inr (k, the (map_of d k))"
      by (auto simp: dict_get_def)
  qed
  from emap_Inr [OF this]
  have s: "subdict d ks = Inr (dict_update [] (map (\<lambda>k. (k, the (map_of d k))) ks))"
    by (simp add: subdict_def)
  have "map_of (dict_update [] (map (\<lambda>k. (k, the (map_of d k))) ks)) k
          = (if k \<in> set ks then map_of d k else None)" for k
  proof (cases "k \<in> set ks")
    case True
    with assms have "map_of d k \<noteq> None" by (auto simp: map_of_eq_None_iff)
    with True show ?thesis by (auto simp: map_of_dict_update_tab)
  next
    case False
    then show ?thesis by (simp add: map_of_dict_update_tab)
  qed
  with s distinct_dict_update [of "[]"] show ?thesis by simp
qed

lemma multiply_pairs_exact:
  "\<forall>(k, sk, ok) \<in> set md. \<exists>x y p. dict_get da sk = Inr x \<and> dict_get db ok = Inr y
       \<and> val_mul x y = Inr p \<Longrightarrow>
   distinct (map fst md) \<Longrightarrow> fst ` set md \<inter> fst ` set pre = {} \<Longrightarrow>
     multiply_pairs md da db (pre @ map (\<lambda>k. (k, PyNone)) (map fst md))
       = Inr (pre @ map (\<lambda>(k, sk, ok).
                (k, projr (val_mul (projr (dict_get da sk)) (projr (dict_get db ok))))) md)"
proof (induction md arbitrary: pre)
  case Nil
  then show ?case by simp
next
  case (Cons a md)
  obtain k sk ok where a: "a = (k, sk, ok)" by (cases a)
  from Cons.prems(1) a obtain x y p where
    p: "dict_get da sk = Inr x" "dict_get db ok = Inr y" "val_mul x y = Inr p" by auto
  from Cons.prems(3) a have n: "k \<notin> fst ` set pre" by auto
  from Cons.prems(2,3) a have "fst ` set md \<inter> fst ` set (pre @ [(k, p)]) = {}" by auto
  from Cons.IH [OF _ _ this] Cons.prems(1,2) a p n show ?case
    by (simp add: dict_set_append)
qed

lemma multiply_and_aggregate_loop_exact:
  "\<forall>o' \<in> set c. \<exists>ins segs s. dict_get aggd o' = Inr ins
       \<and> inter_segs ms sd od ins = Inr segs \<and> np_sum_axis0 segs = Inr s \<Longrightarrow>
   distinct c \<Longrightarrow> set c \<inter> fst ` set pre = {} \<Longrightarrow>
     multiply_and_aggregate_loop c aggd ms sd od (pre @ map (\<lambda>k. (k, PyNone)) c)
       = Inr (pre @ map (\<lambda>o'. (o', projr (np_sum_axis0 (projr (inter_segs ms sd od
                                       (projr (dict_get aggd o'))))))) c)"
proof (induction c arbitrary: pre)
  case Nil
  then show ?case by simp
next
  case (Cons k c)
  from Cons.prems(1) obtain ins segs s where
    p: "dict_get aggd k = Inr ins" "inter_segs ms sd od ins = Inr segs"
      "np_sum_axis0 segs = Inr s" by auto
  from Cons.prems(3) have n: "k \<notin> fst ` set pre" by auto
  from Cons.prems(2,3) have "set c \<inter> fst ` set (pre @ [(k, s)]) = {}" by auto
  from Cons.IH [OF _ _ this] Cons.prems(1,2) p n show ?case
    by (simp add: dict_set_append)
qed

lemmas mult_agg_defs = multiply_and_aggregate_def multiply_and_aggregate_internal_def
  mult_agg_chunk_kwargs_def inter_segs_def np_sum_axis0_def ceil_div_def chunk_list_def
  subdict_def dict_update_def merge_chunks_def multiprocess_def

lemma chunks_nonempty: "c \<in> set (chunks n xs) \<Longrightarrow> c \<noteq> []"
proof (induction n xs rule: chunks.induct)
  case (1 n xs)
  show ?case
  proof (cases "n = 0 \<or> xs = []")
    case True
    with 1(2) show ?thesis by (subst (asm) chunks.simps) simp
  next
    case False
    from 1(2) have "c \<in> set (take n xs # chunks n (drop n xs))"
      using False by (subst (asm) chunks.simps) simp
    then consider "c = take n xs" | "c \<in> set (chunks n (drop n xs))" by auto
    then show ?thesis
    proof cases
      case 1
      with False show ?thesis by simp
    next
      case 2
      from "1.IH" [OF False 2] show ?thesis .
    qed
  qed
qed

lemma fused_chunk:
  assumes H: "\<forall>i \<in> set (map fst md). \<exists>sk ok x y p.
                map_of md i = Some (sk, ok) \<and> map_of da sk = Some x \<and> map_of db ok = Some y
                \<and> val_mul x y = Inr p \<and> flatten p = Inr (Q i) \<and> length (Q i) = n"
    and blocks: "\<forall>(o', ins) \<in> set agg. ins \<noteq> [] \<and> set ins \<subseteq> set (map fst md)"
    and c: "distinct c" "c \<noteq> []" "set c \<subseteq> set (map fst agg)"
  shows "\<exists>kw. mult_agg_chunk_kwargs agg md da db c = Inr kw
           \<and> multiply_and_aggregate_internal kw
               = Inr (map (\<lambda>o'. (o', projr (np_sum_axis0 (map Q (the (map_of agg o')))))) c)"
proof -
  \<comment> \<open>the slice of the aggregation dictionary\<close>
  from c(3) have "set c \<subseteq> fst ` set agg" by simp
  from subdict_tab [OF this] obtain s1 where
    s1: "subdict agg c = Inr s1" "distinct (map fst s1)"
      "\<forall>k. map_of s1 k = (if k \<in> set c then map_of agg k else None)"
    by blast
  have in_s1: "k \<in> set c \<and> (k, ins) \<in> set agg" if "(k, ins) \<in> set s1" for k ins
  proof -
    from that s1(2) have "map_of s1 k = Some ins" by simp
    with s1(3) show ?thesis by (auto split: if_splits dest: map_of_SomeD)
  qed
  have s1_get: "\<exists>ins. map_of agg k = Some ins \<and> (k, ins) \<in> set s1 \<and> (k, ins) \<in> set agg"
    if "k \<in> set c" for k
  proof -
    from that c(3) have "map_of agg k \<noteq> None" by (auto simp: map_of_eq_None_iff)
    then obtain ins where i: "map_of agg k = Some ins" by blast
    with that s1(3) have "map_of s1 k = Some ins" by simp
    with i show ?thesis by (auto dest: map_of_SomeD)
  qed
  \<comment> \<open>the slice of the multiplication dictionary\<close>
  let ?ks = "concat (map snd s1)"
  have ks_md: "set ?ks \<subseteq> fst ` set md"
  proof
    fix i assume "i \<in> set ?ks"
    then obtain k ins where "(k, ins) \<in> set s1" "i \<in> set ins" by auto
    with in_s1 blocks show "i \<in> fst ` set md" by fastforce
  qed
  from subdict_tab [OF this] obtain s2 where
    s2: "subdict md ?ks = Inr s2" "distinct (map fst s2)"
      "\<forall>k. map_of s2 k = (if k \<in> set ?ks then map_of md k else None)"
    by blast
  have in_ks: "i \<in> set ?ks" if "k \<in> set c" "map_of agg k = Some ins" "i \<in> set ins" for k ins i
  proof -
    from s1_get [OF that(1)] that(2) have "(k, ins) \<in> set s1" by auto
    with that(3) show ?thesis by force
  qed
  have s2_ne: "s2 \<noteq> []"
  proof -
    from c(2) obtain k where k: "k \<in> set c" by (cases c) auto
    from s1_get [OF k] obtain ins where i: "map_of agg k = Some ins" "(k, ins) \<in> set agg"
      by blast
    with blocks have "ins \<noteq> []" by auto
    then obtain i0 where i0: "i0 \<in> set ins" by (cases ins) auto
    from in_ks [OF k i(1) i0] ks_md have "i0 \<in> set ?ks" "map_of md i0 \<noteq> None"
      by (auto simp: map_of_eq_None_iff)
    with s2(3) have "map_of s2 i0 \<noteq> None" by simp
    then show ?thesis by auto
  qed
  have in_s2: "map_of md k = Some (sk, ok)" if "(k, sk, ok) \<in> set s2" for k sk ok
  proof -
    from that s2(2) have "map_of s2 k = Some (sk, ok)" by simp
    with s2(3) show ?thesis by (auto split: if_splits)
  qed
  \<comment> \<open>the slices of the data of the two vectors\<close>
  let ?sks = "map (\<lambda>(k, sk, ok). sk) s2" and ?oks = "map (\<lambda>(k, sk, ok). ok) s2"
  have "set ?sks \<subseteq> fst ` set da"
  proof
    fix sk assume "sk \<in> set ?sks"
    then obtain k ok where m: "(k, sk, ok) \<in> set s2" by auto
    from in_s2 [OF m] have "k \<in> set (map fst md)" by (force dest: map_of_SomeD)
    with H in_s2 [OF m] have "map_of da sk \<noteq> None" by fastforce
    then show "sk \<in> fst ` set da" by (simp add: map_of_eq_None_iff)
  qed
  from subdict_tab [OF this] obtain s3 where
    s3: "subdict da ?sks = Inr s3"
      "\<forall>k. map_of s3 k = (if k \<in> set ?sks then map_of da k else None)"
    by blast
  have "set ?oks \<subseteq> fst ` set db"
  proof
    fix ok assume "ok \<in> set ?oks"
    then obtain k sk where m: "(k, sk, ok) \<in> set s2" by auto
    from in_s2 [OF m] have "k \<in> set (map fst md)" by (force dest: map_of_SomeD)
    with H in_s2 [OF m] have "map_of db ok \<noteq> None" by fastforce
    then show "ok \<in> fst ` set db" by (simp add: map_of_eq_None_iff)
  qed
  from subdict_tab [OF this] obtain s4 where
    s4: "subdict db ?oks = Inr s4"
      "\<forall>k. map_of s4 k = (if k \<in> set ?oks then map_of db k else None)"
    by blast
  let ?kw = "\<lparr>aggregation_keys_chunk = c, kw_aggregation_dict = s1, kw_multiply_dict = s2,
              kw_self_data = s3, kw_other_data = s4\<rparr>"
  from s1(1) s2(1) s2_ne s3(1) s4(1)
  have kw: "mult_agg_chunk_kwargs agg md da db c = Inr ?kw"
    by (simp add: mult_agg_chunk_kwargs_def)
  \<comment> \<open>the worker on these slices\<close>
  have seg: "inter_segs s2 s3 s4 ins = Inr (map Q ins)"
    if k: "k \<in> set c" and a: "map_of agg k = Some ins" for k ins
    unfolding inter_segs_def
  proof (rule emap_Inr, rule ballI)
    fix i assume i: "i \<in> set ins"
    from in_ks [OF k a i] have iks: "i \<in> set ?ks" .
    with ks_md have "i \<in> set (map fst md)" by auto
    with H obtain sk ok x y p where
      h: "map_of md i = Some (sk, ok)" "map_of da sk = Some x" "map_of db ok = Some y"
        "val_mul x y = Inr p" "flatten p = Inr (Q i)"
      by blast
    from h(1) iks s2(3) have m2: "map_of s2 i = Some (sk, ok)" by simp
    then have "(i, sk, ok) \<in> set s2" by (rule map_of_SomeD)
    then have "sk \<in> set ?sks" "ok \<in> set ?oks" by force+
    with s3(2) s4(2) h(2,3) have "map_of s3 sk = Some x" "map_of s4 ok = Some y" by simp_all
    with m2 h(4,5)
    show "(case dict_get s2 i of
             Inl e \<Rightarrow> Inl e
           | Inr (self_key, other_key) \<Rightarrow>
               (case dict_get s3 self_key of
                  Inl e \<Rightarrow> Inl e
                | Inr a \<Rightarrow>
                    (case dict_get s4 other_key of
                       Inl e \<Rightarrow> Inl e
                     | Inr b \<Rightarrow>
                         (case val_mul a b of Inl e \<Rightarrow> Inl e | Inr v \<Rightarrow> flatten v))))
          = Inr (Q i)"
      by (simp add: dict_get_def)
  qed
  have per: "dict_get s1 k = Inr (the (map_of agg k))
             \<and> inter_segs s2 s3 s4 (the (map_of agg k)) = Inr (map Q (the (map_of agg k)))
             \<and> (\<exists>s. np_sum_axis0 (map Q (the (map_of agg k))) = Inr s)"
    if k: "k \<in> set c" for k
  proof -
    from s1_get [OF k] obtain ins where
      i: "map_of agg k = Some ins" "(k, ins) \<in> set agg" by blast
    from i(1) k s1(3) have g: "dict_get s1 k = Inr ins" by (simp add: dict_get_def)
    from blocks i(2) have ne: "ins \<noteq> []" and sub: "set ins \<subseteq> set (map fst md)" by auto
    have "\<forall>y \<in> set (map Q ins). length y = n"
    proof
      fix y assume "y \<in> set (map Q ins)"
      then obtain j where "j \<in> set ins" "y = Q j" by auto
      with sub H show "length y = n" by fastforce
    qed
    from np_sum_axis0_uniform [OF _ this] ne obtain s where
      "np_sum_axis0 (map Q ins) = Inr (NpArr s)" by auto
    with g seg [OF k i(1)] i(1) show ?thesis by simp
  qed
  have "\<forall>o' \<in> set c. \<exists>ins segs s. dict_get s1 o' = Inr ins
          \<and> inter_segs s2 s3 s4 ins = Inr segs \<and> np_sum_axis0 segs = Inr s"
    using per by blast
  from multiply_and_aggregate_loop_exact [OF this c(1), of "[]"] c(1)
  have "multiply_and_aggregate_internal ?kw
          = Inr (map (\<lambda>o'. (o', projr (np_sum_axis0 (projr (inter_segs s2 s3 s4
                                       (projr (dict_get s1 o'))))))) c)"
    by (simp add: multiply_and_aggregate_internal_def fromkeys_distinct)
  also have "map (\<lambda>o'. (o', projr (np_sum_axis0 (projr (inter_segs s2 s3 s4
                                       (projr (dict_get s1 o'))))))) c
             = map (\<lambda>o'. (o', projr (np_sum_axis0 (map Q (the (map_of agg o')))))) c"
  proof (rule map_cong [OF refl])
    fix k assume "k \<in> set c"
    from per [OF this]
    show "(k, projr (np_sum_axis0 (projr (inter_segs s2 s3 s4 (projr (dict_get s1 k))))))
            = (k, projr (np_sum_axis0 (map Q (the (map_of agg k)))))"
      by simp
  qed
  finally show ?thesis using kw by blast
qed

lemma tabulate_by_keys:
  "distinct (map fst d) \<Longrightarrow>
     map (\<lambda>k. (k, f (the (map_of d k)))) (map fst d) = map (\<lambda>(k, x). (k, f x)) d"
proof (induction d)
  case Nil
  then show ?case by simp
next
  case (Cons a d)
  obtain k x where a: "a = (k, x)" by (cases a)
  from Cons.prems a have "k \<notin> fst ` set d" by simp
  then have "map (\<lambda>j. (j, f (the (map_of ((k, x) # d) j)))) (map fst d)
               = map (\<lambda>j. (j, f (the (map_of d j)))) (map fst d)"
    by (intro map_cong) auto
  with Cons a show ?case by simp
qed

lemma choose_time_format_validate:
  "has_time_period_segments seg \<longrightarrow> choose_time_format a b \<noteq> TfNone \<Longrightarrow>
     validate_time_format seg (choose_time_format a b)
       = Inr (case time_format_attr a of Some t \<Rightarrow> Some t | None \<Rightarrow> time_format_attr b)"
  by (auto simp: choose_time_format_def validate_time_format_def split: option.splits)

text \<open>
  Where the zoning system of the product is that of \<open>self\<close>, the fused operator
  does return what multiplying and then aggregating returns: the same data, zoning
  system, segmentation and time format. The products are assumed to exist and to be
  numpy values of one length, the multiplication dictionary to name exactly the
  segments of the intermediate segmentation, and the aggregation dictionary to have
  one block, not empty, for each segment of \<open>out\<close>.
\<close>

lemma multiply_and_aggregate_refines:
  assumes sm: "seg_multiply E (segmentation a) (segmentation b) = Inr (md, rs)"
    and sa: "seg_aggregate E rs out = Inr agg"
    and dmd: "distinct (map fst md)" and mdk: "set (map fst md) = set (segment_names rs)"
    and dagg: "distinct (map fst agg)" and aggk: "set (map fst agg) = set (segment_names out)"
    and ne: "agg \<noteq> []"
    and blocks: "\<forall>(o', ins) \<in> set agg. ins \<noteq> [] \<and> set ins \<subseteq> set (map fst md)"
    and prod: "\<forall>(k, sk, ok) \<in> set md. \<exists>x y p xs.
                 map_of (data_attr a) sk = Some x \<and> map_of (data_attr b) ok = Some y
                 \<and> val_mul x y = Inr p \<and> flatten p = Inr xs \<and> length xs = n"
    and zon: "return_zoning_system (zoning_system a) (zoning_system b) = Inr (zoning_system a)"
    and tfi: "has_time_period_segments rs \<longrightarrow> choose_time_format a b \<noteq> TfNone"
    and tfo: "has_time_period_segments out \<longrightarrow> choose_time_format a b \<noteq> TfNone"
    and cd: "0 < chunk_divider a"
  shows "\<exists>ab r r'. mul E a b = Inr ab \<and> aggregate E ab out False = Inr r
           \<and> multiply_and_aggregate E a b out = Inr r'
           \<and> data_attr r' = data_attr r \<and> zoning_system r' = zoning_system r
           \<and> segmentation r' = segmentation r \<and> time_format_attr r' = time_format_attr r"
proof -
  let ?da = "data_attr a" and ?db = "data_attr b"
  let ?pf = "\<lambda>(sk, ok). projr (val_mul (projr (dict_get ?da sk)) (projr (dict_get ?db ok)))"
  let ?AB = "map (\<lambda>(k, v). (k, ?pf v)) md"
  let ?Q = "\<lambda>i. val_entries (the (map_of ?AB i))"
  let ?F = "\<lambda>ins. projr (np_sum_axis0 (map ?Q ins))"
  let ?R = "map (\<lambda>(o', ins). (o', ?F ins)) agg"
  let ?tf = "case time_format_attr a of Some t \<Rightarrow> Some t | None \<Rightarrow> time_format_attr b"
  let ?pc = "set_process_count E (process_count a)"
  \<comment> \<open>the entries of the product\<close>
  have ent: "\<exists>sk ok x y p. map_of md i = Some (sk, ok) \<and> map_of ?da sk = Some x
               \<and> map_of ?db ok = Some y \<and> val_mul x y = Inr p \<and> map_of ?AB i = Some p
               \<and> flatten p = Inr (?Q i) \<and> length (?Q i) = n"
    if "i \<in> set (map fst md)" for i
  proof -
    from that have "map_of md i \<noteq> None" by (simp add: map_of_eq_None_iff)
    then obtain sk ok where m: "map_of md i = Some (sk, ok)" by auto
    then have "(i, sk, ok) \<in> set md" by (rule map_of_SomeD)
    with prod obtain x y p xs where
      h: "map_of ?da sk = Some x" "map_of ?db ok = Some y" "val_mul x y = Inr p"
        "flatten p = Inr xs" "length xs = n"
      by fastforce
    from m h(1,2,3) have ab: "map_of ?AB i = Some p"
      by (simp add: map_of_map dict_get_def)
    from h(4) have "xs = val_entries p" by (cases p) auto
    with m h ab show ?thesis by simp
  qed
  \<comment> \<open>multiply, then aggregate\<close>
  have pr: "\<forall>(k, sk, ok) \<in> set md. \<exists>x y p. dict_get ?da sk = Inr x \<and> dict_get ?db ok = Inr y
              \<and> val_mul x y = Inr p"
    using prod by (fastforce simp: dict_get_def)
  from multiply_pairs_exact [OF pr dmd, of "[]"] dmd
  have mp: "multiply_pairs md ?da ?db (fromkeys (dict_keys md)) = Inr ?AB"
    by (simp add: fromkeys_distinct dict_keys_def case_prod_unfold)
  have kAB: "dict_keys ?AB = map fst md"
    by (simp add: dict_keys_def comp_def case_prod_unfold)
  with mdk have cAB: "dict_to_dvec (zoning_system a) rs ?AB (PyInfill 0) = (None, ?AB)"
    by (intro dict_to_dvec_complete) simp
  let ?ab = "\<lparr>zoning_system = zoning_system a, segmentation = rs, time_format_attr = ?tf,
              data_attr = ?AB, process_count = ?pc, chunk_divider = chunk_divider_of ?pc\<rparr>"
  from zon sm mp cAB choose_time_format_validate [OF tfi]
  have m: "mul E a b = Inr ?ab"
    by (simp add: mul_def DVector_init_def)
  have u: "\<forall>x \<in> snd ` set ?AB. \<exists>xs. flatten x = Inr xs \<and> length xs = n"
  proof
    fix x assume "x \<in> snd ` set ?AB"
    then obtain kx where kx: "kx \<in> set ?AB" "x = snd kx" by blast
    define k where "k = fst kx"
    from kx have k: "(k, x) \<in> set ?AB" by (simp add: k_def)
    from kx(1) have "fst kx \<in> fst ` set ?AB" by (rule imageI)
    also have "fst ` set ?AB = set (dict_keys ?AB)" by (simp only: dict_keys_def set_map)
    finally have "k \<in> set (map fst md)" by (simp only: kAB k_def)
    from ent [OF this] obtain p where p: "map_of ?AB k = Some p" "flatten p = Inr (?Q k)"
      "length (?Q k) = n" by blast
    from kAB have "map fst ?AB = map fst md" by (simp only: dict_keys_def)
    with dmd have "distinct (map fst ?AB)" by (simp only:)
    with k have "map_of ?AB k = Some x" by simp
    with p show "\<exists>xs. flatten x = Inr xs \<and> length xs = n" by auto
  qed
  have "fst ` set ?AB = set (dict_keys ?AB)" by (simp only: dict_keys_def set_map)
  then have "fst ` set ?AB = set (map fst md)" by (simp only: kAB)
  with blocks have sub: "\<forall>(o', ins) \<in> set agg. ins \<noteq> [] \<and> set ins \<subseteq> fst ` set ?AB"
    by (simp only:)
  from aggregate_loop_exact [OF u sub dagg, of "[]"] dagg
  have lp: "aggregate_loop agg ?AB (fromkeys (dict_keys agg)) = Inr ?R"
    by (simp add: fromkeys_distinct dict_keys_def)
  have kR: "dict_keys ?R = map fst agg"
    by (simp add: dict_keys_def comp_def case_prod_unfold)
  with aggk have cR: "dict_to_dvec (zoning_system a) out ?R (PyInfill 0) = (None, ?R)"
    by (intro dict_to_dvec_complete) simp
  from tfo have "has_time_period_segments out \<longrightarrow> ?tf \<noteq> None"
    by (auto simp: choose_time_format_def split: option.splits)
  then have vt: "validate_time_format out (time_format ?ab) = Inr ?tf"
    using validate_time_format_of_valid [of out ?ab] by simp
  let ?r = "\<lparr>zoning_system = zoning_system a, segmentation = out, time_format_attr = ?tf,
             data_attr = ?R, process_count = set_process_count E ?pc,
             chunk_divider = chunk_divider_of (set_process_count E ?pc)\<rparr>"
  from sa lp cR vt have r: "aggregate E ?ab out False = Inr ?r"
    by (simp add: aggregate_def DVector_init_def)
  \<comment> \<open>multiply and aggregate in one\<close>
  from ne have "0 < length agg" by simp
  with cd have "0 < real (length agg) / real_of_int (chunk_divider a)" by simp
  then have "0 < \<lceil>real (length agg) / real_of_int (chunk_divider a)\<rceil>" by simp
  with cd obtain cs where cs: "ceil_div (length agg) (chunk_divider a) = Inr cs" "0 < cs"
    by (simp add: ceil_div_def)
  define m' where "m' = nat cs"
  from cs(2) have m': "0 < m'" by (simp add: m'_def)
  from cs(2) have cl: "chunk_list (dict_keys agg) cs = Inr (chunks m' (map fst agg))"
    by (simp add: chunk_list_def m'_def dict_keys_def)
  let ?G = "\<lambda>c. map (\<lambda>o'. (o', ?F (the (map_of agg o')))) c"
  let ?kwf = "\<lambda>c. projr (mult_agg_chunk_kwargs agg md ?da ?db c)"
  have H: "\<forall>i \<in> set (map fst md). \<exists>sk ok x y p.
                map_of md i = Some (sk, ok) \<and> map_of ?da sk = Some x \<and> map_of ?db ok = Some y
                \<and> val_mul x y = Inr p \<and> flatten p = Inr (?Q i) \<and> length (?Q i) = n"
    using ent by blast
  have chunk: "mult_agg_chunk_kwargs agg md ?da ?db c = Inr (?kwf c)
               \<and> multiply_and_aggregate_internal (?kwf c) = Inr (?G c)"
    if "c \<in> set (chunks m' (map fst agg))" for c
  proof -
    from chunks_elem [OF that] dagg chunks_nonempty [OF that]
    have "distinct c" "c \<noteq> []" "set c \<subseteq> set (map fst agg)" by auto
    from fused_chunk [OF H blocks this] show ?thesis by auto
  qed
  have "\<forall>c \<in> set (chunks m' (map fst agg)).
          mult_agg_chunk_kwargs agg md ?da ?db c = Inr (?kwf c)"
    using chunk by blast
  from emap_Inr [OF this]
  have kwl: "emap (mult_agg_chunk_kwargs agg md ?da ?db) (chunks m' (map fst agg))
               = Inr (map ?kwf (chunks m' (map fst agg)))" .
  have "\<forall>kw \<in> set (map ?kwf (chunks m' (map fst agg))).
          multiply_and_aggregate_internal kw
            = Inr (?G (aggregation_keys_chunk kw))"
  proof
    fix kw assume "kw \<in> set (map ?kwf (chunks m' (map fst agg)))"
    then obtain c where c: "c \<in> set (chunks m' (map fst agg))" "kw = ?kwf c" by auto
    from chunk [OF c(1)] have k: "mult_agg_chunk_kwargs agg md ?da ?db c = Inr kw"
      and i: "multiply_and_aggregate_internal kw = Inr (?G c)"
      using c(2) by simp_all
    from k have "aggregation_keys_chunk kw = c"
      by (auto simp: mult_agg_chunk_kwargs_def split: sum.splits if_splits)
    with i show "multiply_and_aggregate_internal kw = Inr (?G (aggregation_keys_chunk kw))"
      by simp
  qed
  from emap_Inr [OF this]
  have mp1: "multiprocess multiply_and_aggregate_internal (map ?kwf (chunks m' (map fst agg)))
          = Inr (map (\<lambda>kw. ?G (aggregation_keys_chunk kw))
                   (map ?kwf (chunks m' (map fst agg))))"
    by (simp add: multiprocess_def)
  have "map (\<lambda>kw. ?G (aggregation_keys_chunk kw)) (map ?kwf (chunks m' (map fst agg)))
          = map ?G (chunks m' (map fst agg))"
  proof -
    have "?G (aggregation_keys_chunk (?kwf c)) = ?G c"
      if "c \<in> set (chunks m' (map fst agg))" for c
    proof -
      from chunk [OF that] have "mult_agg_chunk_kwargs agg md ?da ?db c = Inr (?kwf c)"
        by simp
      then have "aggregation_keys_chunk (?kwf c) = c"
        by (auto simp: mult_agg_chunk_kwargs_def split: sum.splits if_splits)
      then show ?thesis by simp
    qed
    then show ?thesis by (simp add: comp_def)
  qed
  with mp1 have mp2:
    "multiprocess multiply_and_aggregate_internal (map ?kwf (chunks m' (map fst agg)))
          = Inr (map ?G (chunks m' (map fst agg)))"
    by simp
  from merge_chunks_in_place [OF m' dagg, of "[]" "\<lambda>o'. ?F (the (map_of agg o'))"] dagg
  have "merge_chunks (dict_keys agg) (map ?G (chunks m' (map fst agg)))
          = map (\<lambda>o'. (o', ?F (the (map_of agg o')))) (map fst agg)"
    by (simp add: merge_chunks_def fromkeys_distinct dict_keys_def)
  also have "\<dots> = ?R"
    by (rule tabulate_by_keys [OF dagg])
  finally have mg: "merge_chunks (dict_keys agg) (map ?G (chunks m' (map fst agg))) = ?R" .
  let ?r' = "\<lparr>zoning_system = zoning_system a, segmentation = out, time_format_attr = ?tf,
              data_attr = ?R, process_count = ?pc, chunk_divider = chunk_divider_of ?pc\<rparr>"
  from sm sa cs(1) cl kwl mp2 mg cR choose_time_format_validate [OF tfo]
  have f: "multiply_and_aggregate E a b out = Inr ?r'"
    by (simp add: multiply_and_aggregate_def DVector_init_def)
  from m r f show ?thesis by simp
qed

text \<open>
  C1. The fused operator does not always return what \<^verbatim>\<open>(a * b).aggregate(out)\<close>
  returns. It constructs its result on \<^verbatim>\<open>self.zoning_system\<close> and never compares
  the zoning systems of its operands, where \<^verbatim>\<open>__mul__\<close> works out the zoning
  system of the product. For the rates without zones times the vector on the zoning
  system Z, the product aggregated into C is a vector on Z, while the fused operator
  returns the same arrays in a vector without a zoning system. For two vectors on
  different zoning systems with three zones each, the product is a
  \<^verbatim>\<open>ZoningError\<close>, while the fused operator returns a vector.
\<close>

theorem multiply_and_aggregate_zoning_differs:
  "mul world vec_rate vec_V = Inr vec_V_times_rate
   \<and> aggregate world vec_V_times_rate seg_C False = Inr vec_rate_V_agg
   \<and> zoning_system vec_rate_V_agg = Some zoning_Z
   \<and> multiply_and_aggregate world vec_rate vec_V seg_C = Inr vec_rate_V_fused
   \<and> zoning_system vec_rate_V_fused = None
   \<and> data_attr vec_rate_V_fused = data_attr vec_rate_V_agg
   \<and> mul world vec_V vec_Y = Inl ZoningError
   \<and> multiply_and_aggregate world vec_V vec_Y seg_C = Inr vec_V_Y_fused"
proof -
  have m: "mul world vec_rate vec_V = Inr vec_V_times_rate"
    "mul world vec_V vec_Y = Inl ZoningError"
    by (simp_all add: mul_def return_zoning_system_def world_defs init_defs)
  have a: "aggregate world vec_V_times_rate seg_C False = Inr vec_rate_V_agg"
    by (simp add: aggregate_def flat_segments_def np_sum_axis0_def world_defs init_defs)
  have f: "multiply_and_aggregate world vec_rate vec_V seg_C = Inr vec_rate_V_fused"
    by (simp add: mult_agg_defs world_defs init_defs chunks_small)
  have g: "multiply_and_aggregate world vec_V vec_Y seg_C = Inr vec_V_Y_fused"
    by (simp add: mult_agg_defs world_defs init_defs chunks_small)
  have z: "zoning_system vec_rate_V_agg = Some zoning_Z"
    "zoning_system vec_rate_V_fused = None"
    "data_attr vec_rate_V_fused = data_attr vec_rate_V_agg"
    by (simp_all add: world_defs)
  from m a f g z show ?thesis by simp
qed

subsection \<open>The zoning system of a product\<close>

lemma mul_Inr_zoning:
  assumes "mul E a b = Inr r"
  shows "return_zoning_system (zoning_system a) (zoning_system b) = Inr (zoning_system r)"
  using assms
  by (auto simp: mul_def split: sum.splits prod.splits dest: DVector_init_Inr(1))

text \<open>
  C7. A product \<open>a * b\<close> that is returned keeps the common zoning system of its
  operands when they agree (both without zones included), and the zoning system of
  the other operand when one operand has none; when both operands have a zoning system
  and the two differ, the product is the exception \<^verbatim>\<open>ZoningError\<close>, whatever the
  segmentations and the data are.
\<close>

theorem mul_zoning_compatibility:
  "(mul E a b = Inr r \<longrightarrow>
      (zoning_system a = zoning_system b \<longrightarrow> zoning_system r = zoning_system a) \<and>
      (zoning_system a = None \<longrightarrow> zoning_system r = zoning_system b) \<and>
      (zoning_system b = None \<longrightarrow> zoning_system r = zoning_system a)) \<and>
   (zoning_system a \<noteq> None \<and> zoning_system b \<noteq> None
      \<and> zoning_system a \<noteq> zoning_system b \<longrightarrow> mul E a b = Inl ZoningError)"
proof -
  have ok: "mul E a b = Inr r \<Longrightarrow>
      (zoning_system a = zoning_system b \<longrightarrow> zoning_system r = zoning_system a) \<and>
      (zoning_system a = None \<longrightarrow> zoning_system r = zoning_system b) \<and>
      (zoning_system b = None \<longrightarrow> zoning_system r = zoning_system a)"
    using mul_Inr_zoning [of E a b r]
    by (auto simp: return_zoning_system_def split: if_splits)
  have bad: "zoning_system a \<noteq> None \<and> zoning_system b \<noteq> None
      \<and> zoning_system a \<noteq> zoning_system b \<Longrightarrow> mul E a b = Inl ZoningError"
    by (auto simp: mul_def return_zoning_system_def)
  from ok bad show ?thesis by blast
qed

theorem mul_zoning_compatibility_witness:
  "mul world vec_V vec_rate = Inr vec_V_times_rate
   \<and> zoning_system vec_rate = None
   \<and> zoning_system vec_V_times_rate = zoning_system vec_V
   \<and> mul world vec_rate vec_V = Inr vec_V_times_rate
   \<and> mul world vec_V vec_V = Inr (mk_dvec (Some zoning_Z) seg_AB None
        [(''A'', NpArr [100, 400, 0]), (''B'', NpArr [25, 0, 0])])
   \<and> zoning_system vec_V \<noteq> None \<and> zoning_system vec_Y \<noteq> None
   \<and> zoning_system vec_V \<noteq> zoning_system vec_Y
   \<and> mul world vec_V vec_Y = Inl ZoningError"
proof -
  have e: "mul world vec_V vec_rate = Inr vec_V_times_rate"
    by (simp add: mul_def return_zoning_system_def world_defs init_defs)
  have e': "mul world vec_rate vec_V = Inr vec_V_times_rate"
    by (simp add: mul_def return_zoning_system_def world_defs init_defs)
  have e'': "mul world vec_V vec_V = Inr (mk_dvec (Some zoning_Z) seg_AB None
        [(''A'', NpArr [100, 400, 0]), (''B'', NpArr [25, 0, 0])])"
    by (simp add: mul_def return_zoning_system_def world_defs init_defs)
  have z: "zoning_system vec_rate = None"
    by (simp add: world_defs)
  have m: "zoning_system vec_V \<noteq> None \<and> zoning_system vec_Y \<noteq> None
      \<and> zoning_system vec_V \<noteq> zoning_system vec_Y"
    by (simp add: world_defs)
  from mul_zoning_compatibility [of world vec_V vec_rate vec_V_times_rate] e z
  have k: "zoning_system vec_V_times_rate = zoning_system vec_V"
    by blast
  from mul_zoning_compatibility [of world vec_V vec_Y] m
  have "mul world vec_V vec_Y = Inl ZoningError"
    by blast
  with e e' e'' z m k show ?thesis
    by blast
qed

subsection \<open>Expansion: the time format and the check of the totals\<close>

lemma expanded_dvec_Inr:
  assumes "expanded_dvec E self x = Inr r"
  shows "\<exists>ed rs d. seg_expand E (segmentation self) (segmentation x) = Inr (ed, rs)
           \<and> DVector_init E (zoning_system self) rs d TfNone (PyInfill 0)
                (process_count self) = Inr r"
  using assms
  by (auto simp: expanded_dvec_def split: if_splits sum.splits prod.splits)

lemma expand_segmentation_Inr:
  assumes "expand_segmentation E self x = Inr r"
  shows "expanded_dvec E self x = Inr r"
    and "sum_is_close self r (1 / 10000) 0 = Inr True"
  using assms
  by (auto simp: expand_segmentation_def split: if_splits sum.splits)

lemma expand_weights: "expand_segmentation world vec_C vec_weights = Inr vec_C_expanded"
  by (simp add: expand_segmentation_def expanded_dvec_def world_defs init_defs sum_defs)

lemma expand_rates: "expanded_dvec world vec_C vec_rate = Inr vec_C_times_rate"
  by (simp add: expanded_dvec_def world_defs init_defs)

lemma expand_totals:
  "dvec_sum vec_C = Inr 35" "dvec_sum vec_C_times_rate = Inr (175 / 2)"
  "dvec_sum vec_C_expanded = Inr 35"
  by (simp_all add: world_defs sum_defs)

text \<open>
  C10. A vector that \<^verbatim>\<open>expand_segmentation\<close> returns has no time format, whatever
  the time formats of the two operands are, since the expanded vector is constructed
  without one. So when the expanded segmentation has time period segments, that
  construction is a \<^verbatim>\<open>ValueError\<close> and the call returns no vector.
\<close>

theorem expand_segmentation_time_format:
  "(expand_segmentation E self x = Inr r \<longrightarrow>
      time_format_attr r = None \<and> time_format r = TfNone) \<and>
   (seg_expand E (segmentation self) (segmentation x) = Inr (ed, rs)
      \<and> has_time_period_segments rs \<longrightarrow>
      (DVector_init E (zoning_system self) rs d TfNone (PyInfill 0) (process_count self)
         = Inl ValueError)
      \<and> (\<exists>e. expand_segmentation E self x = Inl e))"
proof -
  have a: "time_format_attr r = None \<and> time_format r = TfNone"
    if "expand_segmentation E self x = Inr r"
  proof -
    from expand_segmentation_Inr(1) [OF that] expanded_dvec_Inr [of E self x r]
    obtain rs' d' where
      i: "DVector_init E (zoning_system self) rs' d' TfNone (PyInfill 0) (process_count self)
            = Inr r"
      by blast
    from DVector_init_Inr(3) [OF i] have "time_format_attr r = None"
      by (simp add: validate_time_format_TfNone split: if_splits)
    then show ?thesis by (simp add: time_format_def)
  qed
  have b: "\<exists>e. expand_segmentation E self x = Inl e"
    if s: "seg_expand E (segmentation self) (segmentation x) = Inr (ed, rs)"
      and t: "has_time_period_segments rs"
  proof (cases "expand_segmentation E self x")
    case (Inl e)
    then show ?thesis by blast
  next
    case (Inr r')
    from expand_segmentation_Inr(1) [OF Inr] expanded_dvec_Inr [of E self x r'] s
    obtain d' where
      i: "DVector_init E (zoning_system self) rs d' TfNone (PyInfill 0) (process_count self)
            = Inr r'"
      by auto
    with DVector_init_TfNone_tp [OF t] show ?thesis by simp
  qed
  from a b DVector_init_TfNone_tp show ?thesis by blast
qed

theorem expand_segmentation_time_format_witness:
  "expand_segmentation world vec_C vec_weights = Inr vec_C_expanded
   \<and> time_format_attr vec_C_expanded = None
   \<and> seg_expand world (segmentation vec_C) (segmentation vec_TP)
       = Inr ([(''1'', ''C'', ''1''), (''5'', ''C'', ''5'')], seg_TP)
   \<and> has_time_period_segments seg_TP
   \<and> time_format_attr vec_TP = Some AVG_DAY
   \<and> expand_segmentation world vec_C vec_TP = Inl ValueError"
proof -
  have s: "seg_expand world (segmentation vec_C) (segmentation vec_TP)
       = Inr ([(''1'', ''C'', ''1''), (''5'', ''C'', ''5'')], seg_TP)"
    by (simp add: world_defs)
  have t: "has_time_period_segments seg_TP" "time_format_attr vec_TP = Some AVG_DAY"
    by (simp_all add: world_defs)
  from expand_segmentation_time_format [of world vec_C vec_weights vec_C_expanded]
    expand_weights
  have n: "time_format_attr vec_C_expanded = None"
    by blast
  from expand_segmentation_time_format
    [of world vec_C vec_TP _ "[(''1'', ''C'', ''1''), (''5'', ''C'', ''5'')]" seg_TP] s t
  obtain e where "expand_segmentation world vec_C vec_TP = Inl e"
    by blast
  moreover have "expand_segmentation world vec_C vec_TP = Inl ValueError"
    by (simp add: expand_segmentation_def expanded_dvec_def world_defs init_defs)
  ultimately show ?thesis using expand_weights n s t
    by blast
qed

text \<open>
  C4. A vector that \<^verbatim>\<open>expand_segmentation\<close> returns has a total that is close to
  the total of \<open>self\<close> in the sense of \<^verbatim>\<open>math.isclose\<close> with the default
  tolerances of \<^verbatim>\<open>sum_is_close\<close> (relative \<open>0.0001\<close>, absolute \<open>0\<close>); and when
  the total of the expanded vector is not close to that of \<open>self\<close>, the call is a
  \<^verbatim>\<open>ValueError\<close> and no vector is returned.
\<close>

theorem expand_segmentation_checks_total:
  "(expand_segmentation E self x = Inr r \<longrightarrow>
      (\<exists>a b. dvec_sum self = Inr a \<and> dvec_sum r = Inr b \<and> isclose a b (1 / 10000) 0)) \<and>
   (expanded_dvec E self x = Inr r' \<and> dvec_sum self = Inr a' \<and> dvec_sum r' = Inr b'
      \<and> \<not> isclose a' b' (1 / 10000) 0 \<longrightarrow>
      expand_segmentation E self x = Inl ValueError)"
proof -
  have a: "\<exists>a b. dvec_sum self = Inr a \<and> dvec_sum r = Inr b \<and> isclose a b (1 / 10000) 0"
    if "expand_segmentation E self x = Inr r"
    using expand_segmentation_Inr(2) [OF that]
    by (auto simp: sum_is_close_def split: sum.splits)
  have b: "expand_segmentation E self x = Inl ValueError"
    if "expanded_dvec E self x = Inr r'" "dvec_sum self = Inr a'" "dvec_sum r' = Inr b'"
      "\<not> isclose a' b' (1 / 10000) 0"
    using that by (simp add: expand_segmentation_def sum_is_close_def)
  from a b show ?thesis by blast
qed

theorem expand_segmentation_checks_total_witness:
  "expand_segmentation world vec_C vec_weights = Inr vec_C_expanded
   \<and> dvec_sum vec_C = Inr 35 \<and> dvec_sum vec_C_expanded = Inr 35
   \<and> isclose 35 35 (1 / 10000) 0
   \<and> expanded_dvec world vec_C vec_rate = Inr vec_C_times_rate
   \<and> dvec_sum vec_C_times_rate = Inr (175 / 2)
   \<and> \<not> isclose 35 (175 / 2) (1 / 10000) 0
   \<and> expand_segmentation world vec_C vec_rate = Inl ValueError"
proof -
  have c: "isclose 35 35 (1 / 10000) 0" "\<not> isclose 35 (175 / 2) (1 / 10000) 0"
    by (simp_all add: isclose_def)
  from expand_segmentation_checks_total
    [of world vec_C vec_weights vec_C_expanded] expand_weights
  have "\<exists>a b. dvec_sum vec_C = Inr a \<and> dvec_sum vec_C_expanded = Inr b
          \<and> isclose a b (1 / 10000) 0"
    by blast
  from expand_segmentation_checks_total
    [of world vec_C vec_rate _ vec_C_times_rate 35 "175 / 2"] expand_rates expand_totals c(2)
  have "expand_segmentation world vec_C vec_rate = Inl ValueError"
    by blast
  with expand_weights expand_rates expand_totals c show ?thesis
    by blast
qed

end
